theory Spec2Isabelle
  imports Complex_Main
begin

section \<open>cif2mtz: conversion of SF-mmCIF reflection blocks to MTZ\<close>

text \<open>
  A shallow embedding of the converter \<^verbatim>\<open>cif2mtz\<close>: the struct \<^verbatim>\<open>CifToMtz\<close> with its
  member functions \<^verbatim>\<open>add_spec_line\<close>, \<^verbatim>\<open>convert_block_to_mtz\<close> and
  \<^verbatim>\<open>status_to_freeflag\<close>, the table \<^verbatim>\<open>default_spec\<close>, and the part of \<^verbatim>\<open>GEMMI_MAIN\<close>
  that drives the conversion of the blocks.
\<close>

subsection \<open>Values and failures\<close>

text \<open>
  A cell of the MTZ data matrix is a C++ \<^verbatim>\<open>float\<close>. Of a float only this is used: it is
  NaN or it carries a number. Rounding to single precision is not modelled.
\<close>

datatype fval = NaN | Num real

text \<open>
  How a computation ends when it does not return: a \<^verbatim>\<open>std::runtime_error\<close> with its
  message (what \<^verbatim>\<open>gemmi::fail\<close> throws), \<^verbatim>\<open>std::exit\<close> with a status, the
  \<^verbatim>\<open>std::out_of_range\<close> of \<^verbatim>\<open>vector::at\<close>, or undefined behaviour (a read or write
  outside a vector).
\<close>

datatype failure = RuntimeError string | ProcessExit nat | OutOfRange | Undefined

definition and_then :: "failure + 'a \<Rightarrow> ('a \<Rightarrow> failure + 'b) \<Rightarrow> failure + 'b" where
  "and_then m f = (case m of Inl e \<Rightarrow> Inl e | Inr x \<Rightarrow> f x)"

text \<open>\<^verbatim>\<open>v[n]\<close> on a \<^verbatim>\<open>std::vector\<close>: undefined outside the vector.\<close>

definition elem_at :: "'a list \<Rightarrow> nat \<Rightarrow> failure + 'a" where
  "elem_at xs n = (if n < length xs then Inr (xs ! n) else Inl Undefined)"

text \<open>
  \<^verbatim>\<open>str[n]\<close> on a \<^verbatim>\<open>const std::string\<close>: the character, and the terminating
  \<^verbatim>\<open>'\0'\<close> at \<^verbatim>\<open>n = size()\<close>. \<^verbatim>\<open>status_to_freeflag\<close> reads position 0, and position 1
  only of a string that has a character at 0, so it never reads beyond \<^verbatim>\<open>size()\<close>.
\<close>

definition char_at :: "string \<Rightarrow> nat \<Rightarrow> char" where
  "char_at s n = (if n < length s then s ! n else CHR 0x00)"

subsection \<open>The data model\<close>

text \<open>\<^verbatim>\<open>CifToMtz::Entry\<close>, one line of the conversion spec.\<close>

record entry =
  refln_tag :: string
  col_label :: string
  col_type :: char
  dataset_id :: int

text \<open>
  \<^verbatim>\<open>gemmi::Mtz::Column\<close>, the fields the converter sets (the back pointer \<^verbatim>\<open>parent\<close>
  is left out: it always points to the container that holds the column).
\<close>

record column =
  c_dataset_id :: int
  c_type :: char
  c_label :: string
  c_idx :: nat

text \<open>\<^verbatim>\<open>cif::Loop\<close>: the tags and the values, row after row.\<close>

record loop =
  tags :: "string list"
  loop_values :: "string list"

text \<open>
  \<^verbatim>\<open>gemmi::ReflnBlock\<close>. The unit cell and the space group are opaque to the converter
  (type variables \<open>'c\<close> and \<open>'g\<close>); a null loop pointer is \<open>None\<close>.
\<close>

record ('c, 'g) refln_block =
  block_name :: string
  cell :: 'c
  spacegroup :: 'g
  wavelength :: fval
  refln_loop :: "loop option"
  diffrn_refln_loop :: "loop option"

text \<open>
  \<^verbatim>\<open>gemmi::Mtz\<close>, as far as the converter fills it. \<open>m_title\<close> is \<open>None\<close> when the
  title is left as the container's default; \<open>m_history\<close> holds the lines appended;
  a dataset is its name with the wavelength given to it, if any; a batch is the cell
  it was set from.
\<close>

record ('c, 'g) mtz =
  m_title :: "string option"
  m_history :: "string list"
  m_cell :: 'c
  m_spacegroup :: 'g
  datasets :: "(string \<times> fval option) list"
  columns :: "column list"
  batches :: "'c list"
  nreflections :: int
  data :: "fval list"

text \<open>The data members of \<^verbatim>\<open>CifToMtz\<close>.\<close>

record cif_to_mtz =
  spec_entries :: "entry list"
  verbose :: bool
  force_unmerged :: bool
  title :: "string option"
  history :: "string list"

text \<open>
  What the converter calls and this repository does not define: the predicates and
  parsers of the CIF library, the reduction of a Miller index to the asymmetric unit
  (\<^verbatim>\<open>UnmergedHklMover::move_to_asu\<close>, which changes the triple in place and returns
  the ISYM code; the mover is made from the space group, which the spec takes to succeed,
  the reduction being total) and the writer of the MTZ file (\<open>Some f\<close> when it does
  not return). \<^verbatim>\<open>as_number\<close> gives NaN for what is not a number: the converter
  tests its result with \<^verbatim>\<open>std::isnan\<close> and only reports it.
\<close>

record ('c, 'g) services =
  is_null :: "string \<Rightarrow> bool"
  as_int :: "string \<Rightarrow> failure + int"
  as_number :: "string \<Rightarrow> fval"
  move_to_asu :: "'g \<Rightarrow> int \<times> int \<times> int \<Rightarrow> (int \<times> int \<times> int) \<times> int"
  write_to_file :: "('c, 'g) mtz \<Rightarrow> string \<Rightarrow> failure option"

subsection \<open>The loop's interface\<close>

fun find_pos :: "string list \<Rightarrow> string \<Rightarrow> nat \<Rightarrow> int" where
  "find_pos [] t n = - 1"
| "find_pos (x # xs) t n = (if x = t then int n else find_pos xs t (Suc n))"

text \<open>
  Modelled from the spec: \<^verbatim>\<open>cif::Loop::find_tag\<close> is not in the repository's files.
  The spec: a loop exposes an ordered tag list and a lookup
  \<^verbatim>\<open>find_tag(qualified_tag) -> index | not-found\<close>; the converter tests the result
  against \<^verbatim>\<open>-1\<close>.
\<close>

definition find_tag :: "loop \<Rightarrow> string \<Rightarrow> int" where
  "find_tag lp t = find_pos (tags lp) t 0"

text \<open>
  Modelled from the spec: \<^verbatim>\<open>cif::Loop::length\<close> is not in the repository's files.
  The spec: row count = \<^verbatim>\<open>values.length / tags.length\<close>.
\<close>

definition loop_length :: "loop \<Rightarrow> nat" where
  "loop_length lp = length (loop_values lp) div length (tags lp)"

subsection \<open>\<^verbatim>\<open>status_to_freeflag\<close>\<close>

definition status_to_freeflag :: "string \<Rightarrow> fval" where
  "status_to_freeflag str =
     (let c = char_at str 0;
          c = (if c = CHR 0x27 \<or> c = CHR 0x22 then char_at str 1 else c)
      in if c = CHR ''o'' then Num 1
         else if c = CHR ''f'' then Num 0
         else NaN)"

subsection \<open>The resolver: the first loop of \<^verbatim>\<open>convert_block_to_mtz\<close>\<close>

text \<open>
  \<^verbatim>\<open>loop->tags[0].substr(0, loop->tags[0].find('.') + 1)\<close>: the first tag up to and
  including its first dot; with no dot \<^verbatim>\<open>find\<close> gives \<^verbatim>\<open>npos\<close>, and \<^verbatim>\<open>npos + 1\<close> is 0.
\<close>

fun find_char :: "char \<Rightarrow> string \<Rightarrow> nat option" where
  "find_char c [] = None"
| "find_char c (x # xs) =
     (if x = c then Some 0 else map_option Suc (find_char c xs))"

definition category_prefix :: "string \<Rightarrow> string" where
  "category_prefix t =
     (case find_char CHR ''.'' t of None \<Rightarrow> take 0 t | Some p \<Rightarrow> take (p + 1) t)"

text \<open>
  The column appended for an entry: \<^verbatim>\<open>idx\<close> is assigned only after the loop
  (0 stands for the unassigned value), and type \<^verbatim>\<open>'s'\<close> is stored as \<^verbatim>\<open>'I'\<close>.
\<close>

definition new_column :: "entry \<Rightarrow> column" where
  "new_column e =
     \<lparr>c_dataset_id = dataset_id e,
      c_type = (if col_type e = CHR ''s'' then CHR ''I'' else col_type e),
      c_label = col_label e,
      c_idx = 0\<rparr>"

text \<open>
  The state of the loop over the spec entries: \<^verbatim>\<open>mtz.columns\<close>, \<^verbatim>\<open>indices\<close> and
  \<^verbatim>\<open>uses_status\<close>. \<open>pre\<close> is the category prefix that \<^verbatim>\<open>tag.replace\<close> keeps.
\<close>

type_synonym resolved = "column list \<times> int list \<times> bool"

fun resolve :: "string \<Rightarrow> loop \<Rightarrow> bool \<Rightarrow> entry list \<Rightarrow> resolved \<Rightarrow> failure + resolved" where
  "resolve pre lp unmerged [] st = Inr st"
| "resolve pre lp unmerged (e # es) (cols, indices, uses_status) =
     (let tag = pre @ refln_tag e;
          index = find_tag lp tag
      in if index \<noteq> - 1 then
           if cols \<noteq> [] \<and> c_label (last cols) = col_label e then
             resolve pre lp unmerged es (cols, indices, uses_status)
           else if unmerged \<and> col_type e = CHR ''s'' then
             resolve pre lp unmerged es (cols, indices, uses_status)
           else
             resolve pre lp unmerged es
               (cols @ [new_column e], indices @ [index],
                uses_status \<or> col_type e = CHR ''s'')
         else if col_type e = CHR ''H'' then
           Inl (RuntimeError (''Miller index tag not found: '' @ tag))
         else resolve pre lp unmerged es (cols, indices, uses_status))"

subsection \<open>The container's columns\<close>

text \<open>
  \<^verbatim>\<open>mtz.columns.emplace(mtz.columns.begin() + n)\<close> followed by the assignment of the
  new column's fields: undefined when the vector has fewer than \<open>n\<close> elements.
\<close>

definition emplace :: "nat \<Rightarrow> 'a \<Rightarrow> 'a list \<Rightarrow> failure + 'a list" where
  "emplace n x xs =
     (if n \<le> length xs then Inr (take n xs @ x # drop n xs) else Inl Undefined)"

definition misym_column :: column where
  "misym_column = \<lparr>c_dataset_id = 1, c_type = CHR ''Y'', c_label = ''M/ISYM'', c_idx = 0\<rparr>"

definition batch_column :: column where
  "batch_column = \<lparr>c_dataset_id = 1, c_type = CHR ''B'', c_label = ''BATCH'', c_idx = 0\<rparr>"

definition add_unmerged_columns :: "column list \<Rightarrow> failure + column list" where
  "add_unmerged_columns cols =
     and_then (emplace 3 misym_column cols) (\<lambda>cols'. emplace 4 batch_column cols')"

text \<open>\<^verbatim>\<open>mtz.columns[i].idx = i\<close> for every column.\<close>

definition set_idx :: "column list \<Rightarrow> column list" where
  "set_idx cols = map (\<lambda>(i, c). c\<lparr>c_idx := i\<rparr>) (enumerate 0 cols)"

subsection \<open>The rows: the second loop of \<^verbatim>\<open>convert_block_to_mtz\<close>\<close>

text \<open>
  The state of the row loop is \<^verbatim>\<open>mtz.data\<close> with the write position \<^verbatim>\<open>k\<close>;
  \<open>store\<close> is \<^verbatim>\<open>mtz.data[k++] = v\<close>.
\<close>

type_synonym cursor = "fval list \<times> nat"

definition store :: "cursor \<Rightarrow> fval \<Rightarrow> failure + cursor" where
  "store dk v =
     (case dk of (d, k) \<Rightarrow> if k < length d then Inr (d[k := v], Suc k) else Inl Undefined)"

fun store_all :: "fval list \<Rightarrow> cursor \<Rightarrow> failure + cursor" where
  "store_all [] dk = Inr dk"
| "store_all (v # vs) dk = and_then (store dk v) (\<lambda>dk'. store_all vs dk')"

text \<open>\<^verbatim>\<open>loop->values[i + indices[j]]\<close>\<close>

definition cell_at :: "loop \<Rightarrow> int list \<Rightarrow> nat \<Rightarrow> nat \<Rightarrow> failure + string" where
  "cell_at lp indices i j =
     and_then (elem_at indices j) (\<lambda>ix. elem_at (loop_values lp) (i + nat ix))"

definition read_int :: "('c, 'g) services \<Rightarrow> loop \<Rightarrow> int list \<Rightarrow> nat \<Rightarrow> nat \<Rightarrow> failure + int" where
  "read_int sv lp indices i j = and_then (cell_at lp indices i j) (as_int sv)"

text \<open>Merged data: \<^verbatim>\<open>for (; j != 3; ++j) mtz.data[k++] = (float) cif::as_int(...)\<close>, over the given \<open>j\<close>s.\<close>

fun put_hkl :: "('c, 'g) services \<Rightarrow> loop \<Rightarrow> int list \<Rightarrow> nat \<Rightarrow> nat list \<Rightarrow> cursor \<Rightarrow> failure + cursor" where
  "put_hkl sv lp indices i [] dk = Inr dk"
| "put_hkl sv lp indices i (j # js) dk =
     and_then (read_int sv lp indices i j) (\<lambda>n.
     and_then (store dk (Num (of_int n))) (\<lambda>dk'. put_hkl sv lp indices i js dk'))"

text \<open>
  Unmerged data: the three indices are read, moved to the asymmetric unit, and written
  with the ISYM code and the batch number 1.
\<close>

definition put_asu :: "('c, 'g) services \<Rightarrow> 'g \<Rightarrow> loop \<Rightarrow> int list \<Rightarrow> nat \<Rightarrow> cursor \<Rightarrow> failure + cursor" where
  "put_asu sv g lp indices i dk =
     and_then (read_int sv lp indices i 0) (\<lambda>h.
     and_then (read_int sv lp indices i 1) (\<lambda>k.
     and_then (read_int sv lp indices i 2) (\<lambda>l.
       case move_to_asu sv g (h, k, l) of
         ((h', k', l'), isym) \<Rightarrow>
           store_all [Num (of_int h'), Num (of_int k'), Num (of_int l'),
                      Num (of_int isym), Num 1] dk)))"

text \<open>\<^verbatim>\<open>if (uses_status) mtz.data[k++] = status_to_freeflag(loop->values[i + indices[j++]])\<close>, where \<open>j\<close> is 3.\<close>

definition put_status :: "loop \<Rightarrow> int list \<Rightarrow> nat \<Rightarrow> cursor \<Rightarrow> failure + cursor" where
  "put_status lp indices i dk =
     and_then (cell_at lp indices i 3) (\<lambda>s. store dk (status_to_freeflag s))"

text \<open>
  \<^verbatim>\<open>for (; j != indices.size(); ++j)\<close>: when \<open>j\<close> is beyond the size the loop
  reads \<^verbatim>\<open>indices[j]\<close> outside the vector.
\<close>

definition number_cell :: "('c, 'g) services \<Rightarrow> string \<Rightarrow> fval" where
  "number_cell sv v = (if is_null sv v then NaN else as_number sv v)"

function put_rest :: "('c, 'g) services \<Rightarrow> loop \<Rightarrow> int list \<Rightarrow> nat \<Rightarrow> nat \<Rightarrow> cursor \<Rightarrow> failure + cursor" where
  "put_rest sv lp indices i j dk =
     (if j = length indices then Inr dk
      else if length indices < j then Inl Undefined
      else and_then (cell_at lp indices i j) (\<lambda>v.
           and_then (store dk (number_cell sv v)) (\<lambda>dk'.
             put_rest sv lp indices i (Suc j) dk')))"
  by pat_completeness auto
termination
  by (relation "measure (\<lambda>(sv, lp, indices, i, j, dk). length indices - j)") auto

definition fill_row :: "('c, 'g) services \<Rightarrow> 'g \<Rightarrow> bool \<Rightarrow> bool \<Rightarrow> loop \<Rightarrow> int list \<Rightarrow> nat \<Rightarrow> cursor \<Rightarrow> failure + cursor" where
  "fill_row sv g unmerged uses_status lp indices i dk =
     and_then (if unmerged then put_asu sv g lp indices i dk
               else put_hkl sv lp indices i [0, 1, 2] dk) (\<lambda>dk1.
     and_then (if uses_status then put_status lp indices i dk1 else Inr dk1) (\<lambda>dk2.
       put_rest sv lp indices i (if uses_status then 4 else 3) dk2))"

text \<open>
  \<^verbatim>\<open>for (size_t i = 0; i < loop->values.size(); i += loop->tags.size())\<close>. With no tag
  the loop does not advance; the converter never gets there, as it has read
  \<^verbatim>\<open>loop->tags[0]\<close> before.
\<close>

function fill_rows :: "('c, 'g) services \<Rightarrow> 'g \<Rightarrow> bool \<Rightarrow> bool \<Rightarrow> loop \<Rightarrow> int list \<Rightarrow> nat \<Rightarrow> cursor \<Rightarrow> failure + cursor" where
  "fill_rows sv g unmerged uses_status lp indices i dk =
     (if tags lp = [] then Inl Undefined
      else if i < length (loop_values lp) then
        and_then (fill_row sv g unmerged uses_status lp indices i dk) (\<lambda>dk'.
          fill_rows sv g unmerged uses_status lp indices (i + length (tags lp)) dk')
      else Inr dk)"
  by pat_completeness auto
termination
  by (relation "measure (\<lambda>(sv, g, unmerged, uses_status, lp, indices, i, dk).
        length (loop_values lp) - i)") (auto simp: neq_Nil_conv)

subsection \<open>\<^verbatim>\<open>convert_block_to_mtz\<close>\<close>

text \<open>\<^verbatim>\<open>rb.refln_loop ? rb.refln_loop : rb.diffrn_refln_loop\<close>\<close>

definition chosen_loop :: "('c, 'g) refln_block \<Rightarrow> loop option" where
  "chosen_loop rb = (case refln_loop rb of Some lp \<Rightarrow> Some lp | None \<Rightarrow> diffrn_refln_loop rb)"

text \<open>\<^verbatim>\<open>bool unmerged = force_unmerged || !rb.refln_loop\<close>\<close>

definition unmerged_mode :: "cif_to_mtz \<Rightarrow> ('c, 'g) refln_block \<Rightarrow> bool" where
  "unmerged_mode cfg rb = (force_unmerged cfg \<or> refln_loop rb = None)"

text \<open>The function up to the call of the writer: the container it hands over.\<close>

definition build_mtz :: "cif_to_mtz \<Rightarrow> ('c, 'g) services \<Rightarrow> ('c, 'g) refln_block \<Rightarrow> failure + ('c, 'g) mtz" where
  "build_mtz cfg sv rb =
     (case chosen_loop rb of
        None \<Rightarrow> Inl (RuntimeError (''_refln category not found in mmCIF block: '' @ block_name rb))
      | Some lp \<Rightarrow>
          if tags lp = [] then Inl Undefined
          else
            let unmerged = unmerged_mode cfg rb;
                pre = category_prefix (hd (tags lp))
            in and_then (resolve pre lp unmerged (spec_entries cfg) ([], [], False))
                 (\<lambda>(cols, indices, uses_status).
               and_then (if unmerged then add_unmerged_columns cols else Inr cols)
                 (\<lambda>cols'.
               and_then (fill_rows sv (spacegroup rb) unmerged uses_status lp indices 0
                           (replicate (length cols' * loop_length lp) (Num 0), 0))
                 (\<lambda>(d, k).
                 Inr \<lparr>m_title = title cfg,
                      m_history = history cfg,
                      m_cell = cell rb,
                      m_spacegroup = spacegroup rb,
                      datasets = [(''HKL_base'', None), (''unknown'', Some (wavelength rb))],
                      columns = set_idx cols',
                      batches = (if unmerged then [cell rb] else []),
                      nreflections = int (loop_length lp),
                      data = d\<rparr>))))"

text \<open>
  The whole function: a \<^verbatim>\<open>std::runtime_error\<close> of the writer ends the process with
  \<^verbatim>\<open>std::exit(3)\<close>. The result is the file written, its path with its content.
\<close>

definition convert_block_to_mtz :: "cif_to_mtz \<Rightarrow> ('c, 'g) services \<Rightarrow> ('c, 'g) refln_block \<Rightarrow> string \<Rightarrow> failure + string \<times> ('c, 'g) mtz" where
  "convert_block_to_mtz cfg sv rb mtz_path =
     and_then (build_mtz cfg sv rb) (\<lambda>m.
       case write_to_file sv m mtz_path of
         None \<Rightarrow> Inr (mtz_path, m)
       | Some (RuntimeError e) \<Rightarrow> Inl (ProcessExit 3)
       | Some f \<Rightarrow> Inl f)"

subsection \<open>The conversion spec: \<^verbatim>\<open>add_spec_line\<close> and \<^verbatim>\<open>default_spec\<close>\<close>

text \<open>
  Modelled from the spec: \<^verbatim>\<open>gemmi::split_str_into_multi\<close> is not in the repository's
  files. The spec: the tokens of a line are its whitespace-separated words; the
  separators the converter passes are space, tab, carriage return and newline.
\<close>

definition is_sep :: "char \<Rightarrow> bool" where
  "is_sep c = (c = CHR '' '' \<or> c = CHR 0x09 \<or> c = CHR 0x0D \<or> c = CHR 0x0A)"

fun split_words :: "string \<Rightarrow> string \<Rightarrow> string list" where
  "split_words cur [] = (if cur = [] then [] else [cur])"
| "split_words cur (c # cs) =
     (if is_sep c then (if cur = [] then split_words [] cs else cur # split_words [] cs)
      else split_words (cur @ [c]) cs)"

definition split_str_into_multi :: "string \<Rightarrow> string list" where
  "split_str_into_multi line = split_words [] line"

text \<open>\<^verbatim>\<open>add_spec_line\<close> appends to \<^verbatim>\<open>spec_entries\<close>, or throws.\<close>

definition add_spec_line :: "entry list \<Rightarrow> string \<Rightarrow> failure + entry list" where
  "add_spec_line entries line =
     (let tokens = split_str_into_multi line
      in if length tokens \<noteq> 4 then
           Inl (RuntimeError (''line should have 4 words: '' @ line))
         else if length (tokens ! 2) \<noteq> 1 \<or> length (tokens ! 3) \<noteq> 1 \<or>
                 (tokens ! 3 ! 0 \<noteq> CHR ''0'' \<and> tokens ! 3 ! 0 \<noteq> CHR ''1'') then
           Inl (RuntimeError (''incorrect line: '' @ line))
         else
           Inr (entries @
                [\<lparr>refln_tag = tokens ! 0,
                  col_label = tokens ! 1,
                  col_type = tokens ! 2 ! 0,
                  dataset_id = of_char (tokens ! 3 ! 0) - of_char CHR ''0''\<rparr>]))"

fun add_spec_lines :: "entry list \<Rightarrow> string list \<Rightarrow> failure + entry list" where
  "add_spec_lines entries [] = Inr entries"
| "add_spec_lines entries (line # lines) =
     and_then (add_spec_line entries line) (\<lambda>entries'. add_spec_lines entries' lines)"

definition default_spec :: "string list" where
  "default_spec =
     [''index_h H H 0'',
      ''index_k K H 0'',
      ''index_l L H 0'',
      ''pdbx_r_free_flag FreeR_flag I 0'',
      ''status FreeR_flag s 0'',
      ''intensity_meas I J 1'',
      ''intensity_net I J 1'',
      ''intensity_sigma SIGI Q 1'',
      ''pdbx_I_plus I(+) K 1'',
      ''pdbx_I_plus_sigma SIGI(+) M 1'',
      ''pdbx_I_minus I(-) K 1'',
      ''pdbx_I_minus_sigma SIGI(-) M 1'',
      ''F_meas_au FP F 1'',
      ''F_meas_sigma_au SIGFP Q 1'',
      ''pdbx_F_plus F(+) G 1'',
      ''pdbx_F_plus_sigma SIGF(+) L 1'',
      ''pdbx_F_minus F(-) G 1'',
      ''pdbx_F_minus_sigma SIGF(-) L 1'',
      ''pdbx_anom_difference DP D 1'',
      ''pdbx_anom_difference_sigma SIGDP Q 1'',
      ''F_calc FC F 1'',
      ''phase_calc PHIC P 1'',
      ''fom FOM W 1'',
      ''weight FOM W 1'',
      ''pdbx_HL_A_iso HLA A 1'',
      ''pdbx_HL_B_iso HLB A 1'',
      ''pdbx_HL_C_iso HLC A 1'',
      ''pdbx_HL_D_iso HLD A 1'',
      ''pdbx_FWT FWT F 1'',
      ''pdbx_PHWT PHWT P 1'',
      ''pdbx_DELFWT DELFWT F 1'',
      ''pdbx_DELPHWT DELPHWT P 1'']"

text \<open>
  The spec table of \<^verbatim>\<open>GEMMI_MAIN\<close>: the lines of the file given with \<^verbatim>\<open>--spec\<close>,
  or else the lines of \<^verbatim>\<open>default_spec\<close>. A failure here ends the run with status 2.
\<close>

definition load_spec :: "string list option \<Rightarrow> failure + entry list" where
  "load_spec spec_lines =
     add_spec_lines [] (case spec_lines of Some lines \<Rightarrow> lines | None \<Rightarrow> default_spec)"

subsection \<open>\<^verbatim>\<open>GEMMI_MAIN\<close>: the blocks and the exit status\<close>

text \<open>
  How the process ends: with an exit status (returned from \<^verbatim>\<open>main\<close> or given to
  \<^verbatim>\<open>std::exit\<close>), or abnormally (an exception nobody catches, undefined behaviour).
\<close>

datatype ending = Exit nat | Crash failure

text \<open>
  What the \<^verbatim>\<open>catch (std::runtime_error&)\<close> around the conversion makes of a failure
  that reaches it.
\<close>

fun ending_of :: "failure \<Rightarrow> ending" where
  "ending_of (RuntimeError e) = Exit 1"
| "ending_of (ProcessExit n) = Exit n"
| "ending_of f = Crash f"

fun get_block_by_name :: "('c, 'g) refln_block list \<Rightarrow> string \<Rightarrow> failure + ('c, 'g) refln_block" where
  "get_block_by_name [] name = Inl (RuntimeError (''block not found: '' @ name))"
| "get_block_by_name (rb # rbs) name =
     (if block_name rb = name then Inr rb else get_block_by_name rbs name)"

text \<open>
  The loop over the blocks with \<^verbatim>\<open>--dir\<close>: its state is the flag \<^verbatim>\<open>ok\<close> and the files
  written so far. Only a \<^verbatim>\<open>std::runtime_error\<close> is caught inside the loop.
\<close>

fun convert_all :: "cif_to_mtz \<Rightarrow> ('c, 'g) services \<Rightarrow> string \<Rightarrow> ('c, 'g) refln_block list \<Rightarrow> bool \<Rightarrow> (string \<times> ('c, 'g) mtz) list \<Rightarrow> (failure + bool) \<times> (string \<times> ('c, 'g) mtz) list" where
  "convert_all cfg sv dir [] ok files = (Inr ok, files)"
| "convert_all cfg sv dir (rb # rbs) ok files =
     (case convert_block_to_mtz cfg sv rb (dir @ ''/'' @ block_name rb @ ''.mtz'') of
        Inr file \<Rightarrow> convert_all cfg sv dir rbs ok (files @ [file])
      | Inl (RuntimeError e) \<Rightarrow> convert_all cfg sv dir rbs False files
      | Inl f \<Rightarrow> (Inl f, files))"

text \<open>
  The conversion part of \<^verbatim>\<open>GEMMI_MAIN\<close>, from the blocks read to the exit status, with
  the files written. \<open>dir\<close> is the argument of \<^verbatim>\<open>--dir\<close>, \<open>block\<close> of \<^verbatim>\<open>--block\<close>,
  \<open>mtz_path\<close> the second positional argument.
\<close>

definition run_conversion :: "cif_to_mtz \<Rightarrow> ('c, 'g) services \<Rightarrow> string option \<Rightarrow> string option \<Rightarrow> string \<Rightarrow> ('c, 'g) refln_block list \<Rightarrow> ending \<times> (string \<times> ('c, 'g) mtz) list" where
  "run_conversion cfg sv dir block mtz_path rblocks =
     (case dir of
        Some d \<Rightarrow>
          (case convert_all cfg sv d rblocks True [] of
             (Inr ok, files) \<Rightarrow> (if ok then Exit 0 else Exit 1, files)
           | (Inl f, files) \<Rightarrow> (ending_of f, files))
      | None \<Rightarrow>
          (case (case block of
                   Some name \<Rightarrow> get_block_by_name rblocks name
                 | None \<Rightarrow> (case rblocks of [] \<Rightarrow> Inl OutOfRange | rb # rbs \<Rightarrow> Inr rb)) of
             Inl f \<Rightarrow> (ending_of f, [])
           | Inr rb \<Rightarrow>
               (case convert_block_to_mtz cfg sv rb mtz_path of
                  Inr file \<Rightarrow> (Exit 0, [file])
                | Inl f \<Rightarrow> (ending_of f, []))))"

subsection \<open>Notions for the proofs\<close>

text \<open>The source index of an entry's tag: what the resolver pushes on \<^verbatim>\<open>indices\<close>.\<close>

definition tag_index :: "string \<Rightarrow> loop \<Rightarrow> entry \<Rightarrow> int" where
  "tag_index pre lp e = find_tag lp (pre @ refln_tag e)"

text \<open>
  \<open>overwrite d k vs\<close> is \<open>d\<close> with \<open>vs\<close> written from position \<open>k\<close>;
  \<open>text_cell lp indices i j\<close> is \<^verbatim>\<open>loop->values[i + indices[j]]\<close> when both reads are
  inside their vectors.
\<close>

definition overwrite :: "'a list \<Rightarrow> nat \<Rightarrow> 'a list \<Rightarrow> 'a list" where
  "overwrite d k vs = take k d @ vs @ drop (k + length vs) d"

definition text_cell :: "loop \<Rightarrow> int list \<Rightarrow> nat \<Rightarrow> nat \<Rightarrow> string" where
  "text_cell lp indices i j = loop_values lp ! (i + nat (indices ! j))"

definition lead_cells :: "('c, 'g) services \<Rightarrow> 'g \<Rightarrow> bool \<Rightarrow> int \<Rightarrow> int \<Rightarrow> int \<Rightarrow> fval list" where
  "lead_cells sv g unm h k l =
     (if unm then
        (case move_to_asu sv g (h, k, l) of
           ((h', k', l'), isym) \<Rightarrow>
             [Num (of_int h'), Num (of_int k'), Num (of_int l'), Num (of_int isym), Num 1])
      else [Num (of_int h), Num (of_int k), Num (of_int l)])"

definition tail_cells :: "('c, 'g) services \<Rightarrow> bool \<Rightarrow> loop \<Rightarrow> int list \<Rightarrow> nat \<Rightarrow> fval list" where
  "tail_cells sv us lp indices i =
     (if us then [status_to_freeflag (text_cell lp indices i 3)] else []) @
     map (\<lambda>j. number_cell sv (text_cell lp indices i j)) [(if us then 4 else 3)..<length indices]"

text \<open>
  The cells of the row at offset \<open>i\<close>: the leading cells of the indices \<open>h\<close>,
  \<open>k\<close>, \<open>l\<close>, then the status cell and the number cells. \<open>row_written\<close>
  says that \<open>cells\<close> are the cells of that row, the three indices parsed.
\<close>

definition row_written :: "('c, 'g) services \<Rightarrow> 'g \<Rightarrow> bool \<Rightarrow> bool \<Rightarrow> loop \<Rightarrow> int list \<Rightarrow> nat \<Rightarrow> fval list \<Rightarrow> bool" where
  "row_written sv g unm us lp inds i cells =
     (\<exists>h k l. as_int sv (text_cell lp inds i 0) = Inr h \<and>
              as_int sv (text_cell lp inds i 1) = Inr k \<and>
              as_int sv (text_cell lp inds i 2) = Inr l \<and>
              cells = lead_cells sv g unm h k l @ tail_cells sv us lp inds i)"

text \<open>The container that \<open>build_mtz\<close> returns.\<close>

definition container :: "cif_to_mtz \<Rightarrow> ('c, 'g) refln_block \<Rightarrow> loop \<Rightarrow> bool \<Rightarrow> column list \<Rightarrow> fval list \<Rightarrow> ('c, 'g) mtz" where
  "container cfg rb lp unm cols d =
     \<lparr>m_title = title cfg,
      m_history = history cfg,
      m_cell = cell rb,
      m_spacegroup = spacegroup rb,
      datasets = [(''HKL_base'', None), (''unknown'', Some (wavelength rb))],
      columns = set_idx cols,
      batches = (if unm then [cell rb] else []),
      nreflections = int (loop_length lp),
      data = d\<rparr>"

subsection \<open>Fixtures: a spec table, stand-ins for the services, blocks\<close>

text \<open>The entries of \<^verbatim>\<open>default_spec\<close> (lemma \<open>load_spec_default\<close>).\<close>

definition default_entries :: "entry list" where
  "default_entries =
     [\<lparr>refln_tag = ''index_h'', col_label = ''H'', col_type = CHR ''H'', dataset_id = 0\<rparr>,
      \<lparr>refln_tag = ''index_k'', col_label = ''K'', col_type = CHR ''H'', dataset_id = 0\<rparr>,
      \<lparr>refln_tag = ''index_l'', col_label = ''L'', col_type = CHR ''H'', dataset_id = 0\<rparr>,
      \<lparr>refln_tag = ''pdbx_r_free_flag'', col_label = ''FreeR_flag'', col_type = CHR ''I'', dataset_id = 0\<rparr>,
      \<lparr>refln_tag = ''status'', col_label = ''FreeR_flag'', col_type = CHR ''s'', dataset_id = 0\<rparr>,
      \<lparr>refln_tag = ''intensity_meas'', col_label = ''I'', col_type = CHR ''J'', dataset_id = 1\<rparr>,
      \<lparr>refln_tag = ''intensity_net'', col_label = ''I'', col_type = CHR ''J'', dataset_id = 1\<rparr>,
      \<lparr>refln_tag = ''intensity_sigma'', col_label = ''SIGI'', col_type = CHR ''Q'', dataset_id = 1\<rparr>,
      \<lparr>refln_tag = ''pdbx_I_plus'', col_label = ''I(+)'', col_type = CHR ''K'', dataset_id = 1\<rparr>,
      \<lparr>refln_tag = ''pdbx_I_plus_sigma'', col_label = ''SIGI(+)'', col_type = CHR ''M'', dataset_id = 1\<rparr>,
      \<lparr>refln_tag = ''pdbx_I_minus'', col_label = ''I(-)'', col_type = CHR ''K'', dataset_id = 1\<rparr>,
      \<lparr>refln_tag = ''pdbx_I_minus_sigma'', col_label = ''SIGI(-)'', col_type = CHR ''M'', dataset_id = 1\<rparr>,
      \<lparr>refln_tag = ''F_meas_au'', col_label = ''FP'', col_type = CHR ''F'', dataset_id = 1\<rparr>,
      \<lparr>refln_tag = ''F_meas_sigma_au'', col_label = ''SIGFP'', col_type = CHR ''Q'', dataset_id = 1\<rparr>,
      \<lparr>refln_tag = ''pdbx_F_plus'', col_label = ''F(+)'', col_type = CHR ''G'', dataset_id = 1\<rparr>,
      \<lparr>refln_tag = ''pdbx_F_plus_sigma'', col_label = ''SIGF(+)'', col_type = CHR ''L'', dataset_id = 1\<rparr>,
      \<lparr>refln_tag = ''pdbx_F_minus'', col_label = ''F(-)'', col_type = CHR ''G'', dataset_id = 1\<rparr>,
      \<lparr>refln_tag = ''pdbx_F_minus_sigma'', col_label = ''SIGF(-)'', col_type = CHR ''L'', dataset_id = 1\<rparr>,
      \<lparr>refln_tag = ''pdbx_anom_difference'', col_label = ''DP'', col_type = CHR ''D'', dataset_id = 1\<rparr>,
      \<lparr>refln_tag = ''pdbx_anom_difference_sigma'', col_label = ''SIGDP'', col_type = CHR ''Q'', dataset_id = 1\<rparr>,
      \<lparr>refln_tag = ''F_calc'', col_label = ''FC'', col_type = CHR ''F'', dataset_id = 1\<rparr>,
      \<lparr>refln_tag = ''phase_calc'', col_label = ''PHIC'', col_type = CHR ''P'', dataset_id = 1\<rparr>,
      \<lparr>refln_tag = ''fom'', col_label = ''FOM'', col_type = CHR ''W'', dataset_id = 1\<rparr>,
      \<lparr>refln_tag = ''weight'', col_label = ''FOM'', col_type = CHR ''W'', dataset_id = 1\<rparr>,
      \<lparr>refln_tag = ''pdbx_HL_A_iso'', col_label = ''HLA'', col_type = CHR ''A'', dataset_id = 1\<rparr>,
      \<lparr>refln_tag = ''pdbx_HL_B_iso'', col_label = ''HLB'', col_type = CHR ''A'', dataset_id = 1\<rparr>,
      \<lparr>refln_tag = ''pdbx_HL_C_iso'', col_label = ''HLC'', col_type = CHR ''A'', dataset_id = 1\<rparr>,
      \<lparr>refln_tag = ''pdbx_HL_D_iso'', col_label = ''HLD'', col_type = CHR ''A'', dataset_id = 1\<rparr>,
      \<lparr>refln_tag = ''pdbx_FWT'', col_label = ''FWT'', col_type = CHR ''F'', dataset_id = 1\<rparr>,
      \<lparr>refln_tag = ''pdbx_PHWT'', col_label = ''PHWT'', col_type = CHR ''P'', dataset_id = 1\<rparr>,
      \<lparr>refln_tag = ''pdbx_DELFWT'', col_label = ''DELFWT'', col_type = CHR ''F'', dataset_id = 1\<rparr>,
      \<lparr>refln_tag = ''pdbx_DELPHWT'', col_label = ''DELPHWT'', col_type = CHR ''P'', dataset_id = 1\<rparr>]"

text \<open>
  Stand-ins for the services, as fixed tables: the null markers \<^verbatim>\<open>?\<close> and \<^verbatim>\<open>.\<close>, an
  integer parser that throws on what is not in its table, a number parser that gives
  NaN on what is not in its table, a reduction that maps \<open>(-1, 0, 2)\<close> to
  \<open>(1, 0, 2)\<close> with ISYM 3 and leaves every other index with ISYM 1, and a writer
  that succeeds.
\<close>

definition test_as_int :: "string \<Rightarrow> failure + int" where
  "test_as_int s =
     (if s = ''0'' then Inr 0
      else if s = ''1'' then Inr 1
      else if s = ''2'' then Inr 2
      else if s = ''3'' then Inr 3
      else if s = ''-1'' then Inr (- 1)
      else Inl (RuntimeError (''not an integer: '' @ s)))"

definition test_as_number :: "string \<Rightarrow> fval" where
  "test_as_number s =
     (if s = ''100.0'' then Num 100
      else if s = ''5.0'' then Num 5
      else if s = ''7.5'' then Num 7.5
      else NaN)"

definition test_move_to_asu :: "unit \<Rightarrow> int \<times> int \<times> int \<Rightarrow> (int \<times> int \<times> int) \<times> int" where
  "test_move_to_asu g hkl = (if hkl = (- 1, 0, 2) then ((1, 0, 2), 3) else (hkl, 1))"

definition test_services :: "(unit, unit) services" where
  "test_services =
     \<lparr>is_null = (\<lambda>s. s = ''?'' \<or> s = ''.''),
      as_int = test_as_int,
      as_number = test_as_number,
      move_to_asu = test_move_to_asu,
      write_to_file = (\<lambda>m path. None)\<rparr>"

definition test_cfg :: "entry list \<Rightarrow> cif_to_mtz" where
  "test_cfg entries =
     \<lparr>spec_entries = entries, verbose = False, force_unmerged = False,
      title = None, history = []\<rparr>"

definition merged_block :: "string \<Rightarrow> loop \<Rightarrow> (unit, unit) refln_block" where
  "merged_block name lp =
     \<lparr>block_name = name, cell = (), spacegroup = (), wavelength = Num 1,
      refln_loop = Some lp, diffrn_refln_loop = None\<rparr>"

definition diffrn_block :: "string \<Rightarrow> loop \<Rightarrow> (unit, unit) refln_block" where
  "diffrn_block name lp =
     \<lparr>block_name = name, cell = (), spacegroup = (), wavelength = Num 1,
      refln_loop = None, diffrn_refln_loop = Some lp\<rparr>"

text \<open>The loop of the scenario: five tags and the row \<open>(1, 2, 3, 100.0, 5.0)\<close>.\<close>

definition scenario_loop :: loop where
  "scenario_loop =
     \<lparr>tags = [''_refln.index_h'', ''_refln.index_k'', ''_refln.index_l'',
              ''_refln.F_meas_au'', ''_refln.F_meas_sigma_au''],
      loop_values = [''1'', ''2'', ''3'', ''100.0'', ''5.0'']\<rparr>"

text \<open>The columns that the resolver finds for it with the default table.\<close>

definition scenario_columns :: "column list" where
  "scenario_columns =
     [\<lparr>c_dataset_id = 0, c_type = CHR ''H'', c_label = ''H'', c_idx = 0\<rparr>,
      \<lparr>c_dataset_id = 0, c_type = CHR ''H'', c_label = ''K'', c_idx = 0\<rparr>,
      \<lparr>c_dataset_id = 0, c_type = CHR ''H'', c_label = ''L'', c_idx = 0\<rparr>,
      \<lparr>c_dataset_id = 1, c_type = CHR ''F'', c_label = ''FP'', c_idx = 0\<rparr>,
      \<lparr>c_dataset_id = 1, c_type = CHR ''Q'', c_label = ''SIGFP'', c_idx = 0\<rparr>]"

text \<open>
  An unmerged loop with one observation of the index \<open>(-1, 0, 2)\<close>, and the same with a
  null marker for the intensity.
\<close>

definition unmerged_loop :: loop where
  "unmerged_loop =
     \<lparr>tags = [''_diffrn_refln.index_h'', ''_diffrn_refln.index_k'', ''_diffrn_refln.index_l'',
              ''_diffrn_refln.intensity_net'', ''_diffrn_refln.intensity_sigma''],
      loop_values = [''-1'', ''0'', ''2'', ''100.0'', ''5.0'']\<rparr>"

text \<open>A merged loop that lacks the tag \<^verbatim>\<open>index_k\<close>.\<close>

definition loop_without_k :: loop where
  "loop_without_k =
     \<lparr>tags = [''_refln.index_h'', ''_refln.index_l'', ''_refln.F_meas_au''],
      loop_values = [''1'', ''3'', ''100.0'']\<rparr>"

text \<open>Services whose writer throws a \<^verbatim>\<open>std::runtime_error\<close> for the file \<^verbatim>\<open>out/a.mtz\<close>.\<close>

definition failing_services :: "(unit, unit) services" where
  "failing_services =
     test_services\<lparr>write_to_file :=
       (\<lambda>m path. if path = ''out/a.mtz'' then Some (RuntimeError ''cannot open file'') else None)\<rparr>"

text \<open>
  The loop of the scenario with the null marker for \<^verbatim>\<open>F_meas_au\<close>, and with the null
  marker for \<^verbatim>\<open>index_h\<close>.
\<close>

definition null_value_loop :: loop where
  "null_value_loop =
     \<lparr>tags = [''_refln.index_h'', ''_refln.index_k'', ''_refln.index_l'',
              ''_refln.F_meas_au'', ''_refln.F_meas_sigma_au''],
      loop_values = [''1'', ''2'', ''3'', ''?'', ''5.0'']\<rparr>"

definition null_index_loop :: loop where
  "null_index_loop =
     \<lparr>tags = [''_refln.index_h'', ''_refln.index_k'', ''_refln.index_l'',
              ''_refln.F_meas_au'', ''_refln.F_meas_sigma_au''],
      loop_values = [''?'', ''2'', ''3'', ''100.0'', ''5.0'']\<rparr>"

text \<open>
  A merged loop with \<^verbatim>\<open>status\<close> and without \<^verbatim>\<open>pdbx_r_free_flag\<close>, and the default table
  with \<^verbatim>\<open>--unmerged\<close>.
\<close>

definition status_loop :: loop where
  "status_loop =
     \<lparr>tags = [''_refln.index_h'', ''_refln.index_k'', ''_refln.index_l'',
              ''_refln.status'', ''_refln.F_meas_au''],
      loop_values = [''1'', ''2'', ''3'', ''o'', ''100.0'']\<rparr>"

definition forced_cfg :: "entry list \<Rightarrow> cif_to_mtz" where
  "forced_cfg entries = (test_cfg entries)\<lparr>force_unmerged := True\<rparr>"

text \<open>A spec file that puts the status entry after an amplitude, and a loop for it.\<close>

definition status_last_spec :: "string list" where
  "status_last_spec =
     [''index_h H H 0'',
      ''index_k K H 0'',
      ''index_l L H 0'',
      ''F_meas_au FP F 1'',
      ''status FreeR_flag s 0'']"

definition status_last_loop :: loop where
  "status_last_loop =
     \<lparr>tags = [''_refln.index_h'', ''_refln.index_k'', ''_refln.index_l'',
              ''_refln.F_meas_au'', ''_refln.status''],
      loop_values = [''1'', ''2'', ''3'', ''100.0'', ''o'']\<rparr>"

text \<open>
  A spec file in which two entries with the label \<^verbatim>\<open>F\<close> are separated by the status
  entry, its entries, and a loop that has all the tags.
\<close>

definition separated_spec :: "string list" where
  "separated_spec =
     [''index_h H H 0'',
      ''index_k K H 0'',
      ''index_l L H 0'',
      ''F_meas_au F F 1'',
      ''status FreeR_flag s 0'',
      ''F_calc F F 1'']"

definition separated_entries :: "entry list" where
  "separated_entries =
     [\<lparr>refln_tag = ''index_h'', col_label = ''H'', col_type = CHR ''H'', dataset_id = 0\<rparr>,
      \<lparr>refln_tag = ''index_k'', col_label = ''K'', col_type = CHR ''H'', dataset_id = 0\<rparr>,
      \<lparr>refln_tag = ''index_l'', col_label = ''L'', col_type = CHR ''H'', dataset_id = 0\<rparr>,
      \<lparr>refln_tag = ''F_meas_au'', col_label = ''F'', col_type = CHR ''F'', dataset_id = 1\<rparr>,
      \<lparr>refln_tag = ''status'', col_label = ''FreeR_flag'', col_type = CHR ''s'', dataset_id = 0\<rparr>,
      \<lparr>refln_tag = ''F_calc'', col_label = ''F'', col_type = CHR ''F'', dataset_id = 1\<rparr>]"

definition separated_loop :: loop where
  "separated_loop =
     \<lparr>tags = [''_refln.index_h'', ''_refln.index_k'', ''_refln.index_l'',
              ''_refln.F_meas_au'', ''_refln.status'', ''_refln.F_calc''],
      loop_values = [''1'', ''2'', ''3'', ''100.0'', ''o'', ''5.0'']\<rparr>"

section \<open>Lemmas\<close>

declare fill_rows.simps [simp del] put_rest.simps [simp del]

subsection \<open>Lookup\<close>

lemma find_pos_none: "(find_pos xs t n = - 1) = (t \<notin> set xs)"
  by (induction xs arbitrary: n) auto

lemma find_pos_range:
  "t \<in> set xs \<Longrightarrow> int n \<le> find_pos xs t n \<and> find_pos xs t n < int n + int (length xs)"
proof (induction xs arbitrary: n)
  case Nil
  then show ?case by simp
next
  case (Cons x xs)
  show ?case
  proof (cases "x = t")
    case True
    then show ?thesis by simp
  next
    case False
    with Cons.prems have "t \<in> set xs" by simp
    from Cons.IH[OF this, of "Suc n"] False show ?thesis by simp
  qed
qed

lemma find_pos_nth: "t \<in> set xs \<Longrightarrow> xs ! (nat (find_pos xs t n) - n) = t"
proof (induction xs arbitrary: n)
  case Nil
  then show ?case by simp
next
  case (Cons x xs)
  show ?case
  proof (cases "x = t")
    case True
    then show ?thesis by simp
  next
    case False
    with Cons.prems have t: "t \<in> set xs" by simp
    from find_pos_range[OF t, of "Suc n"] have "Suc n \<le> nat (find_pos xs t (Suc n))" by linarith
    then have "nat (find_pos xs t (Suc n)) - n = Suc (nat (find_pos xs t (Suc n)) - Suc n)" by linarith
    with False Cons.IH[OF t, of "Suc n"] show ?thesis by simp
  qed
qed

lemma find_tag_none: "(find_tag lp t = - 1) = (t \<notin> set (tags lp))"
  by (simp add: find_tag_def find_pos_none)

lemma find_tag_found:
  assumes "t \<in> set (tags lp)"
  shows "0 \<le> find_tag lp t" "nat (find_tag lp t) < length (tags lp)" "tags lp ! nat (find_tag lp t) = t"
  using find_pos_range[OF assms, of 0] find_pos_nth[OF assms, of 0]
  by (simp_all add: find_tag_def nat_less_iff)

subsection \<open>and_then\<close>

lemma and_then_Inl [simp]: "and_then (Inl e) f = Inl e"
  by (simp add: and_then_def)

lemma and_then_Inr [simp]: "and_then (Inr x) f = f x"
  by (simp add: and_then_def)

lemma and_then_eq_Inr: "(and_then m f = Inr y) = (\<exists>x. m = Inr x \<and> f x = Inr y)"
  by (cases m) simp_all

lemma and_then_InrE:
  assumes "and_then m f = Inr y"
  obtains x where "m = Inr x" "f x = Inr y"
  using assms by (cases m) simp_all

subsection \<open>Resolver\<close>

lemma resolve_append:
  "resolve pre lp unm (es1 @ es2) st = and_then (resolve pre lp unm es1 st) (resolve pre lp unm es2)"
proof (induction es1 arbitrary: st unm)
  case Nil
  then show ?case by simp
next
  case (Cons e es1)
  obtain cols inds us where st: "st = (cols, inds, us)" by (cases st)
  show ?case unfolding st by (simp add: Let_def Cons.IH)
qed

lemma resolve_grows:
  assumes "resolve pre lp unm es (cols, inds, us) = Inr (cols', inds', us')"
  shows "\<exists>sel. cols' = cols @ map new_column sel \<and> inds' = inds @ map (tag_index pre lp) sel
            \<and> set sel \<subseteq> set es \<and> (\<forall>e\<in>set sel. tag_index pre lp e \<noteq> - 1)
            \<and> (\<forall>e\<in>set sel. \<not> (unm \<and> col_type e = CHR ''s''))
            \<and> us' = (us \<or> (\<exists>e\<in>set sel. col_type e = CHR ''s''))"
  using assms
proof (induction es arbitrary: cols inds us)
  case Nil
  then show ?case by simp
next
  case (Cons e es)
  let ?ix = "tag_index pre lp e"
  consider (skip) "resolve pre lp unm es (cols, inds, us) = Inr (cols', inds', us')"
    | (app) "?ix \<noteq> - 1" "\<not> (unm \<and> col_type e = CHR ''s'')"
        "resolve pre lp unm es (cols @ [new_column e], inds @ [?ix], us \<or> col_type e = CHR ''s'') = Inr (cols', inds', us')"
    using Cons.prems by (auto simp: Let_def tag_index_def split: if_splits)
  then show ?case
  proof cases
    case skip
    from Cons.IH[OF skip] obtain sel where "cols' = cols @ map new_column sel" "inds' = inds @ map (tag_index pre lp) sel"
      "set sel \<subseteq> set es" "\<forall>e\<in>set sel. tag_index pre lp e \<noteq> - 1" "\<forall>e\<in>set sel. \<not> (unm \<and> col_type e = CHR ''s'')"
      "us' = (us \<or> (\<exists>e\<in>set sel. col_type e = CHR ''s''))" by blast
    then show ?thesis by (intro exI[of _ sel]) auto
  next
    case app
    from Cons.IH[OF app(3)] obtain sel where "cols' = (cols @ [new_column e]) @ map new_column sel" "inds' = (inds @ [?ix]) @ map (tag_index pre lp) sel"
      "set sel \<subseteq> set es" "\<forall>e\<in>set sel. tag_index pre lp e \<noteq> - 1" "\<forall>e\<in>set sel. \<not> (unm \<and> col_type e = CHR ''s'')"
      "us' = ((us \<or> col_type e = CHR ''s'') \<or> (\<exists>e\<in>set sel. col_type e = CHR ''s''))" by blast
    with app(1,2) show ?thesis by (intro exI[of _ "e # sel"]) auto
  qed
qed

lemma resolve_lengths:
  assumes "resolve pre lp unm es ([], [], False) = Inr (cols, inds, us)"
  shows "length cols = length inds" "\<forall>j<length inds. 0 \<le> inds ! j \<and> nat (inds ! j) < length (tags lp)" "us \<longrightarrow> \<not> unm"
proof -
  from resolve_grows[OF assms] obtain sel where sel: "cols = map new_column sel" "inds = map (tag_index pre lp) sel"
    "\<forall>e\<in>set sel. tag_index pre lp e \<noteq> - 1" "\<forall>e\<in>set sel. \<not> (unm \<and> col_type e = CHR ''s'')" "us = (\<exists>e\<in>set sel. col_type e = CHR ''s'')"
    by auto
  show "length cols = length inds" using sel by simp
  show "us \<longrightarrow> \<not> unm" using sel by auto
  show "\<forall>j<length inds. 0 \<le> inds ! j \<and> nat (inds ! j) < length (tags lp)"
  proof (intro allI impI)
    fix j assume "j < length inds"
    then have "sel ! j \<in> set sel" "inds ! j = tag_index pre lp (sel ! j)" using sel by simp_all
    moreover from this sel(3) have "pre @ refln_tag (sel ! j) \<in> set (tags lp)"
      by (auto simp: tag_index_def find_tag_none)
    ultimately show "0 \<le> inds ! j \<and> nat (inds ! j) < length (tags lp)"
      using find_tag_found(1,2) by (simp add: tag_index_def)
  qed
qed

lemma resolve_missing_index:
  assumes "e \<in> set es" "col_type e = CHR ''H''" "pre @ refln_tag e \<notin> set (tags lp)"
  shows "\<exists>e'\<in>set es. col_type e' = CHR ''H'' \<and> pre @ refln_tag e' \<notin> set (tags lp) \<and>
           (\<forall>unm st. resolve pre lp unm es st =
              Inl (RuntimeError (''Miller index tag not found: '' @ pre @ refln_tag e')))"
  using assms
proof (induction es)
  case Nil
  then show ?case by simp
next
  case (Cons x es)
  show ?case
  proof (cases "col_type x = CHR ''H'' \<and> pre @ refln_tag x \<notin> set (tags lp)")
    case True
    have "resolve pre lp unm (x # es) st =
              Inl (RuntimeError (''Miller index tag not found: '' @ pre @ refln_tag x))" for unm st
      using True by (cases st) (simp add: Let_def find_tag_none)
    with True show ?thesis by auto
  next
    case False
    with Cons.prems have "e \<in> set es" by auto
    from Cons.IH[OF this Cons.prems(2,3)] obtain e' where e': "e' \<in> set es" "col_type e' = CHR ''H''"
      "pre @ refln_tag e' \<notin> set (tags lp)"
      "\<And>unm st. resolve pre lp unm es st = Inl (RuntimeError (''Miller index tag not found: '' @ pre @ refln_tag e'))"
      by blast
    have "resolve pre lp unm (x # es) st =
              Inl (RuntimeError (''Miller index tag not found: '' @ pre @ refln_tag e'))" for unm st
      using False by (cases st) (auto simp: Let_def find_tag_none e'(4))
    with e'(1-3) show ?thesis by auto
  qed
qed


subsection \<open>Cursor\<close>

lemma length_overwrite: "k + length vs \<le> length d \<Longrightarrow> length (overwrite d k vs) = length d"
  by (simp add: overwrite_def)

lemma overwrite_overwrite:
  "k + length xs + length ys \<le> length d \<Longrightarrow>
   overwrite (overwrite d k xs) (k + length xs) ys = overwrite d k (xs @ ys)"
  by (simp add: overwrite_def add.commute add.left_commute)

lemma take_overwrite: "k + length vs \<le> length d \<Longrightarrow> take k (overwrite d k vs) = take k d"
  by (simp add: overwrite_def)

lemma seg_overwrite:
  "k + length vs \<le> length d \<Longrightarrow> drop k (take (k + length vs) (overwrite d k vs)) = vs"
  by (simp add: overwrite_def)

lemma store_eq_Inr:
  "(store (d, k) v = Inr dk') = (k < length d \<and> dk' = (overwrite d k [v], Suc k))"
  by (auto simp: store_def overwrite_def upd_conv_take_nth_drop)

lemma store_all_single: "store_all [v] dk = store dk v"
  by (cases "store dk v") simp_all

lemma store_all_eq_Inr:
  "k \<le> length d \<Longrightarrow>
   (store_all vs (d, k) = Inr dk') =
   (k + length vs \<le> length d \<and> dk' = (overwrite d k vs, k + length vs))"
proof (induction vs arbitrary: d k)
  case Nil
  then show ?case by (auto simp: overwrite_def)
next
  case (Cons v vs)
  show ?case
  proof (cases "k < length d")
    case True
    let ?d1 = "overwrite d k [v]"
    have st: "store (d, k) v = Inr (?d1, Suc k)"
      using True by (simp add: store_eq_Inr)
    have len: "length ?d1 = length d"
      using True by (simp add: length_overwrite)
    have ow: "overwrite ?d1 (Suc k) vs = overwrite d k (v # vs)" if "Suc (k + length vs) \<le> length d"
      using overwrite_overwrite[of k "[v]" vs d] that by simp
    have "(store_all (v # vs) (d, k) = Inr dk') = (store_all vs (?d1, Suc k) = Inr dk')"
      by (simp add: st)
    also have "\<dots> = (Suc k + length vs \<le> length ?d1 \<and> dk' = (overwrite ?d1 (Suc k) vs, Suc k + length vs))"
      using True by (intro Cons.IH) (simp add: len)
    also have "\<dots> = (k + length (v # vs) \<le> length d \<and> dk' = (overwrite d k (v # vs), k + length (v # vs)))"
      using ow by (auto simp: len)
    finally show ?thesis .
  next
    case False
    then have "store (d, k) v = Inl Undefined" by (simp add: store_def)
    with False Cons.prems show ?thesis by simp
  qed
qed

lemma store_all_append:
  "store_all (xs @ ys) dk = and_then (store_all xs dk) (store_all ys)"
proof (induction xs arbitrary: dk)
  case Nil
  then show ?case by simp
next
  case (Cons x xs)
  then show ?case by (cases "store dk x") simp_all
qed

lemma cell_at_Inr:
  "cell_at lp inds i j = Inr v \<Longrightarrow>
   j < length inds \<and> i + nat (inds ! j) < length (loop_values lp) \<and> v = text_cell lp inds i j"
  by (auto simp: cell_at_def elem_at_def text_cell_def and_then_eq_Inr split: if_splits)

lemma read_int_Inr:
  "read_int sv lp inds i j = Inr n \<Longrightarrow>
   j < length inds \<and> i + nat (inds ! j) < length (loop_values lp) \<and> as_int sv (text_cell lp inds i j) = Inr n"
  by (auto simp: read_int_def and_then_eq_Inr dest: cell_at_Inr)

lemma put_hkl_Inr:
  assumes "put_hkl sv lp inds i [0, 1, 2] dk = Inr dk'"
  shows "\<exists>h k l. read_int sv lp inds i 0 = Inr h \<and> read_int sv lp inds i 1 = Inr k \<and>
           read_int sv lp inds i 2 = Inr l \<and>
           store_all [Num (of_int h), Num (of_int k), Num (of_int l)] dk = Inr dk'"
  using assms by (auto simp: and_then_eq_Inr)

lemma put_asu_Inr:
  assumes "put_asu sv g lp inds i dk = Inr dk'"
  shows "\<exists>h k l. read_int sv lp inds i 0 = Inr h \<and> read_int sv lp inds i 1 = Inr k \<and>
           read_int sv lp inds i 2 = Inr l \<and>
           store_all (lead_cells sv g True h k l) dk = Inr dk'"
  using assms by (auto simp: put_asu_def lead_cells_def and_then_eq_Inr split: prod.splits)

lemma put_rest_Inr:
  assumes "put_rest sv lp inds i j dk = Inr dk'"
  shows "j \<le> length inds \<and>
         (\<forall>j'. j \<le> j' \<and> j' < length inds \<longrightarrow> i + nat (inds ! j') < length (loop_values lp)) \<and>
         store_all (map (\<lambda>j. number_cell sv (text_cell lp inds i j)) [j..<length inds]) dk = Inr dk'"
  using assms
proof (induction sv lp inds i j dk rule: put_rest.induct)
  case (1 sv lp inds i j dk)
  show ?case
  proof (cases "j = length inds")
    case True
    with "1.prems" show ?thesis by (simp add: put_rest.simps)
  next
    case False
    with "1.prems" have lt: "j < length inds"
      by (subst (asm) put_rest.simps) (simp split: if_splits)
    with "1.prems" obtain v dk1 where v: "cell_at lp inds i j = Inr v"
      and st: "store dk (number_cell sv v) = Inr dk1"
      and rest: "put_rest sv lp inds i (Suc j) dk1 = Inr dk'"
      by (subst (asm) put_rest.simps) (auto simp: and_then_eq_Inr)
    from "1.IH"[OF False _ rest] lt have IH:
      "\<forall>j'. Suc j \<le> j' \<and> j' < length inds \<longrightarrow> i + nat (inds ! j') < length (loop_values lp)"
      "store_all (map (\<lambda>j. number_cell sv (text_cell lp inds i j)) [Suc j..<length inds]) dk1 = Inr dk'"
      by simp_all
    from cell_at_Inr[OF v] have vj: "i + nat (inds ! j) < length (loop_values lp)" "v = text_cell lp inds i j"
      by simp_all
    have "\<forall>j'. j \<le> j' \<and> j' < length inds \<longrightarrow> i + nat (inds ! j') < length (loop_values lp)"
      using IH(1) vj(1) by (metis Suc_leI le_neq_implies_less)
    moreover have "store_all (map (\<lambda>j. number_cell sv (text_cell lp inds i j)) [j..<length inds]) dk = Inr dk'"
      using lt st IH(2) vj(2) by (simp add: upt_conv_Cons)
    ultimately show ?thesis using lt by simp
  qed
qed

lemma fill_row_Inr:
  assumes "fill_row sv g unm us lp inds i dk = Inr dk'"
  shows "\<exists>h k l. 3 \<le> length inds \<and> (us \<longrightarrow> 4 \<le> length inds) \<and>
           (\<forall>j<length inds. i + nat (inds ! j) < length (loop_values lp)) \<and>
           as_int sv (text_cell lp inds i 0) = Inr h \<and>
           as_int sv (text_cell lp inds i 1) = Inr k \<and>
           as_int sv (text_cell lp inds i 2) = Inr l \<and>
           store_all (lead_cells sv g unm h k l @ tail_cells sv us lp inds i) dk = Inr dk'"
proof -
  from assms obtain dk1 dk2 where
    lead: "(if unm then put_asu sv g lp inds i dk else put_hkl sv lp inds i [0, 1, 2] dk) = Inr dk1"
    and stat: "(if us then put_status lp inds i dk1 else Inr dk1) = Inr dk2"
    and rest: "put_rest sv lp inds i (if us then 4 else 3) dk2 = Inr dk'"
    by (auto simp: fill_row_def and_then_eq_Inr)
  have "\<exists>h k l. read_int sv lp inds i 0 = Inr h \<and> read_int sv lp inds i 1 = Inr k \<and>
           read_int sv lp inds i 2 = Inr l \<and> store_all (lead_cells sv g unm h k l) dk = Inr dk1"
  proof (cases unm)
    case True
    with lead have "put_asu sv g lp inds i dk = Inr dk1" by simp
    from put_asu_Inr[OF this] True show ?thesis by simp
  next
    case False
    with lead have "put_hkl sv lp inds i [0, 1, 2] dk = Inr dk1" by simp
    from put_hkl_Inr[OF this] False show ?thesis by (simp add: lead_cells_def)
  qed
  then obtain h k l where r: "read_int sv lp inds i 0 = Inr h" "read_int sv lp inds i 1 = Inr k"
    "read_int sv lp inds i 2 = Inr l" and s1: "store_all (lead_cells sv g unm h k l) dk = Inr dk1"
    by blast
  from r[THEN read_int_Inr] have r': "2 < length inds" 
    "i + nat (inds ! 0) < length (loop_values lp)" "i + nat (inds ! 1) < length (loop_values lp)"
    "i + nat (inds ! 2) < length (loop_values lp)"
    "as_int sv (text_cell lp inds i 0) = Inr h" "as_int sv (text_cell lp inds i 1) = Inr k"
    "as_int sv (text_cell lp inds i 2) = Inr l" by simp_all
  have "store_all (if us then [status_to_freeflag (text_cell lp inds i 3)] else []) dk1 = Inr dk2 \<and>
        (us \<longrightarrow> 3 < length inds \<and> i + nat (inds ! 3) < length (loop_values lp))"
  proof (cases us)
    case True
    with stat have "and_then (cell_at lp inds i 3) (\<lambda>s. store dk1 (status_to_freeflag s)) = Inr dk2"
      by (simp add: put_status_def)
    then obtain s where s: "cell_at lp inds i 3 = Inr s" "store dk1 (status_to_freeflag s) = Inr dk2"
      by (rule and_then_InrE)
    from cell_at_Inr[OF s(1)] s(2) True show ?thesis by (simp add: store_all_single)
  next
    case False
    with stat show ?thesis by simp
  qed
  then have s2: "store_all (if us then [status_to_freeflag (text_cell lp inds i 3)] else []) dk1 = Inr dk2"
    and us3: "us \<longrightarrow> 3 < length inds \<and> i + nat (inds ! 3) < length (loop_values lp)"
    by simp_all
  from put_rest_Inr[OF rest] have s3:
    "store_all (map (\<lambda>j. number_cell sv (text_cell lp inds i j)) [(if us then 4 else 3)..<length inds]) dk2 = Inr dk'"
    and rng: "\<forall>j'. (if us then 4 else 3) \<le> j' \<and> j' < length inds \<longrightarrow> i + nat (inds ! j') < length (loop_values lp)"
    by simp_all
  have all: "\<forall>j<length inds. i + nat (inds ! j) < length (loop_values lp)"
  proof (intro allI impI)
    fix j assume j: "j < length inds"
    consider "j = 0" | "j = 1" | "j = 2" | "j = 3" "us" | "(if us then 4 else 3) \<le> j"
      by (cases us) (simp_all, linarith+)
    then show "i + nat (inds ! j) < length (loop_values lp)"
      using r' us3 rng j by cases auto
  qed
  have "store_all (lead_cells sv g unm h k l @ tail_cells sv us lp inds i) dk = Inr dk'"
    unfolding tail_cells_def store_all_append using s1 s2 s3 by simp
  with r' us3 all show ?thesis by (intro exI[of _ h] exI[of _ k] exI[of _ l]) auto
qed


lemma length_lead_cells: "length (lead_cells sv g unm h k l) = (if unm then 5 else 3)"
  by (simp add: lead_cells_def split: prod.splits)

lemma length_row_cells:
  assumes "3 \<le> length inds" "us \<longrightarrow> 4 \<le> length inds"
  shows "length (lead_cells sv g unm h k l @ tail_cells sv us lp inds i) =
         length inds + (if unm then 2 else 0)"
  using assms by (auto simp: length_lead_cells tail_cells_def)

lemma fill_row_written:
  assumes "fill_row sv g unm us lp inds i (d, k) = Inr dk'" "k \<le> length d"
  shows "\<exists>cells. row_written sv g unm us lp inds i cells \<and>
           length cells = length inds + (if unm then 2 else 0) \<and>
           3 \<le> length inds \<and> (us \<longrightarrow> 4 \<le> length inds) \<and>
           k + length cells \<le> length d \<and>
           dk' = (overwrite d k cells, k + length cells)"
proof -
  from fill_row_Inr[OF assms(1)] obtain h kk l where f:
    "3 \<le> length inds" "us \<longrightarrow> 4 \<le> length inds"
    "as_int sv (text_cell lp inds i 0) = Inr h" "as_int sv (text_cell lp inds i 1) = Inr kk"
    "as_int sv (text_cell lp inds i 2) = Inr l"
    "store_all (lead_cells sv g unm h kk l @ tail_cells sv us lp inds i) (d, k) = Inr dk'"
    by blast
  let ?cells = "lead_cells sv g unm h kk l @ tail_cells sv us lp inds i"
  have "row_written sv g unm us lp inds i ?cells"
    unfolding row_written_def using f(3-5) by blast
  moreover have "length ?cells = length inds + (if unm then 2 else 0)"
    using f(1,2) by (rule length_row_cells)
  moreover have "k + length ?cells \<le> length d \<and> dk' = (overwrite d k ?cells, k + length ?cells)"
    using f(6) store_all_eq_Inr[OF assms(2)] by simp
  ultimately show ?thesis using f(1,2) by blast
qed

lemma fill_rows_Inr:
  assumes "fill_rows sv g unm us lp inds i dk = Inr dk'" "snd dk \<le> length (fst dk)"
  shows "length (fst dk') = length (fst dk) \<and> take (snd dk) (fst dk') = take (snd dk) (fst dk) \<and>
         (\<forall>r. i + r * length (tags lp) < length (loop_values lp) \<longrightarrow>
              3 \<le> length inds \<and> (us \<longrightarrow> 4 \<le> length inds) \<and>
              snd dk + Suc r * (length inds + (if unm then 2 else 0)) \<le> length (fst dk) \<and>
              row_written sv g unm us lp inds (i + r * length (tags lp))
                (take (length inds + (if unm then 2 else 0))
                   (drop (snd dk + r * (length inds + (if unm then 2 else 0))) (fst dk'))))"
  using assms
proof (induction sv g unm us lp inds i dk rule: fill_rows.induct)
  case (1 sv g unm us lp inds i dk)
  let ?w = "length inds + (if unm then 2 else 0)"
  let ?nt = "length (tags lp)"
  obtain d k where dk: "dk = (d, k)" by (cases dk)
  from "1.prems"(1) have tg: "tags lp \<noteq> []"
    by (subst (asm) fill_rows.simps) (simp split: if_splits)
  show ?case
  proof (cases "i < length (loop_values lp)")
    case False
    with "1.prems"(1) tg have "dk' = dk" by (subst (asm) fill_rows.simps) simp
    with False show ?thesis by simp
  next
    case True
    with "1.prems"(1) tg have
      "and_then (fill_row sv g unm us lp inds i dk) (\<lambda>dk'. fill_rows sv g unm us lp inds (i + ?nt) dk') = Inr dk'"
      by (subst (asm) fill_rows.simps) simp
    then obtain dk1 where row: "fill_row sv g unm us lp inds i dk = Inr dk1"
      and rest: "fill_rows sv g unm us lp inds (i + ?nt) dk1 = Inr dk'"
      by (rule and_then_InrE)
    from "1.prems"(2) have kd: "k \<le> length d" by (simp add: dk)
    from fill_row_written[OF row[unfolded dk] kd] obtain cells where c:
      "row_written sv g unm us lp inds i cells" "length cells = ?w"
      "3 \<le> length inds" "us \<longrightarrow> 4 \<le> length inds"
      "k + length cells \<le> length d" "dk1 = (overwrite d k cells, k + length cells)"
      by blast
    have len1: "length (fst dk1) = length d" using c(5,6) by (simp add: length_overwrite)
    have k1: "snd dk1 = k + ?w" using c(2,6) by simp
    have inv1: "snd dk1 \<le> length (fst dk1)" using len1 k1 c(2,5) by simp
    from "1.IH"[OF tg True rest inv1] have IH:
      "length (fst dk') = length (fst dk1)" "take (snd dk1) (fst dk') = take (snd dk1) (fst dk1)"
      "\<And>r. i + ?nt + r * ?nt < length (loop_values lp) \<Longrightarrow>
              snd dk1 + Suc r * ?w \<le> length (fst dk1) \<and>
              row_written sv g unm us lp inds (i + ?nt + r * ?nt) (take ?w (drop (snd dk1 + r * ?w) (fst dk')))"
      by simp_all
    have pre: "take (k + ?w) (fst dk') = take (k + ?w) (overwrite d k cells)"
      using IH(2) k1 c(6) by simp
    have tk: "take k (fst dk') = take k d"
    proof -
      have "take k (fst dk') = take k (take (k + ?w) (fst dk'))" by simp
      also have "\<dots> = take k (take (k + ?w) (overwrite d k cells))" by (simp only: pre)
      also have "\<dots> = take k (overwrite d k cells)" by simp
      also have "\<dots> = take k d" using c(5) by (rule take_overwrite)
      finally show ?thesis .
    qed
    have row0: "take ?w (drop k (fst dk')) = cells"
    proof -
      have "take ?w (drop k (fst dk')) = drop k (take (k + ?w) (fst dk'))"
        by (simp add: drop_take)
      also have "\<dots> = drop k (take (k + length cells) (overwrite d k cells))"
        by (simp only: pre c(2))
      also have "\<dots> = cells" using c(5) by (rule seg_overwrite)
      finally show ?thesis .
    qed
    have rows: "3 \<le> length inds \<and> (us \<longrightarrow> 4 \<le> length inds) \<and> k + Suc r * ?w \<le> length d \<and>
       row_written sv g unm us lp inds (i + r * ?nt) (take ?w (drop (k + r * ?w) (fst dk')))"
      if r: "i + r * ?nt < length (loop_values lp)" for r
    proof (cases r)
      case 0
      with c row0 show ?thesis by simp
    next
      case (Suc r')
      with r have "i + ?nt + r' * ?nt < length (loop_values lp)" by (simp add: add.assoc)
      from IH(3)[OF this] have "snd dk1 + Suc r' * ?w \<le> length (fst dk1)"
        "row_written sv g unm us lp inds (i + ?nt + r' * ?nt) (take ?w (drop (snd dk1 + r' * ?w) (fst dk')))"
        by simp_all
      moreover have "snd dk1 + r' * ?w = k + r * ?w" "i + ?nt + r' * ?nt = i + r * ?nt"
        "snd dk1 + Suc r' * ?w = k + Suc r * ?w"
        using k1 Suc by simp_all
      ultimately show ?thesis using c(3,4) len1 by simp
    qed
    show ?thesis
      using IH(1) len1 tk rows by (simp add: dk)
  qed
qed

subsection \<open>Container\<close>

lemma build_mtzI:
  assumes "chosen_loop rb = Some lp" "tags lp \<noteq> []"
    and "resolve (category_prefix (hd (tags lp))) lp (unmerged_mode cfg rb) (spec_entries cfg) ([], [], False)
          = Inr (cols, inds, us)"
    and "(if unmerged_mode cfg rb then add_unmerged_columns cols else Inr cols) = Inr cols'"
    and "fill_rows sv (spacegroup rb) (unmerged_mode cfg rb) us lp inds 0
           (replicate (length cols' * loop_length lp) (Num 0), 0) = Inr (d, k)"
  shows "build_mtz cfg sv rb = Inr (container cfg rb lp (unmerged_mode cfg rb) cols' d)"
  using assms unfolding build_mtz_def container_def
  by (simp add: Let_def)

lemma build_mtzE:
  assumes "build_mtz cfg sv rb = Inr m"
  obtains lp cols inds us cols' d k where
    "chosen_loop rb = Some lp" "tags lp \<noteq> []"
    "resolve (category_prefix (hd (tags lp))) lp (unmerged_mode cfg rb) (spec_entries cfg) ([], [], False)
          = Inr (cols, inds, us)"
    "(if unmerged_mode cfg rb then add_unmerged_columns cols else Inr cols) = Inr cols'"
    "fill_rows sv (spacegroup rb) (unmerged_mode cfg rb) us lp inds 0
           (replicate (length cols' * loop_length lp) (Num 0), 0) = Inr (d, k)"
    "m = container cfg rb lp (unmerged_mode cfg rb) cols' d"
  using assms unfolding build_mtz_def container_def
  by (auto simp: and_then_def Let_def split: option.splits if_splits sum.splits prod.splits)

lemma add_unmerged_columns_Inr:
  "(add_unmerged_columns cols = Inr cols') =
   (3 \<le> length cols \<and> cols' = take 3 cols @ [misym_column, batch_column] @ drop 3 cols)"
  by (auto simp: add_unmerged_columns_def emplace_def and_then_eq_Inr)

lemma length_set_idx [simp]: "length (set_idx cols) = length cols"
  by (simp add: set_idx_def)

lemma nth_set_idx: "j < length cols \<Longrightarrow> set_idx cols ! j = (cols ! j)\<lparr>c_idx := j\<rparr>"
  by (simp add: set_idx_def nth_enumerate_eq)

lemma build_mtz_missing_index:
  assumes "chosen_loop rb = Some lp" "tags lp \<noteq> []" "e \<in> set (spec_entries cfg)"
    "col_type e = CHR ''H''" "category_prefix (hd (tags lp)) @ refln_tag e \<notin> set (tags lp)"
  shows "\<exists>e'\<in>set (spec_entries cfg). col_type e' = CHR ''H'' \<and>
           category_prefix (hd (tags lp)) @ refln_tag e' \<notin> set (tags lp) \<and>
           build_mtz cfg sv rb =
             Inl (RuntimeError (''Miller index tag not found: '' @ category_prefix (hd (tags lp)) @ refln_tag e'))"
proof -
  from resolve_missing_index[OF assms(3-5)] obtain e' where e': "e' \<in> set (spec_entries cfg)"
    "col_type e' = CHR ''H''" "category_prefix (hd (tags lp)) @ refln_tag e' \<notin> set (tags lp)"
    "\<And>unm st. resolve (category_prefix (hd (tags lp))) lp unm (spec_entries cfg) st =
       Inl (RuntimeError (''Miller index tag not found: '' @ category_prefix (hd (tags lp)) @ refln_tag e'))"
    by blast
  have "build_mtz cfg sv rb =
             Inl (RuntimeError (''Miller index tag not found: '' @ category_prefix (hd (tags lp)) @ refln_tag e'))"
    using assms(1,2) by (simp add: build_mtz_def e'(4) Let_def)
  with e'(1-3) show ?thesis by blast
qed

lemma convert_runtime_error:
  "build_mtz cfg sv rb = Inl f \<Longrightarrow> convert_block_to_mtz cfg sv rb path = Inl f"
  by (simp add: convert_block_to_mtz_def)

subsection \<open>The rows of a container\<close>

lemma row_in_loop:
  assumes "r < loop_length lp"
  shows "tags lp \<noteq> []" "r * length (tags lp) < length (loop_values lp)"
proof -
  from assms have pos: "0 < length (loop_values lp) div length (tags lp)"
    by (simp add: loop_length_def)
  then have nt: "0 < length (tags lp)"
    by (cases "length (tags lp) = 0") simp_all
  then show "tags lp \<noteq> []" by simp
  from assms have "Suc r \<le> length (loop_values lp) div length (tags lp)"
    by (simp add: loop_length_def)
  then have "Suc r * length (tags lp) \<le> length (loop_values lp)"
    using nt by (simp add: less_eq_div_iff_mult_less_eq)
  then have "length (tags lp) + r * length (tags lp) \<le> length (loop_values lp)"
    by simp
  with nt show "r * length (tags lp) < length (loop_values lp)" by linarith
qed

lemma build_mtz_shape:
  assumes "build_mtz cfg sv rb = Inr m" and "chosen_loop rb = Some lp"
    and "resolve (category_prefix (hd (tags lp))) lp (unmerged_mode cfg rb) (spec_entries cfg)
           ([], [], False) = Inr (cols, inds, us)"
  shows "length inds = length cols"
    and "us \<longrightarrow> \<not> unmerged_mode cfg rb"
    and "unmerged_mode cfg rb \<longrightarrow> 3 \<le> length cols"
    and "columns m = set_idx (if unmerged_mode cfg rb
                              then take 3 cols @ [misym_column, batch_column] @ drop 3 cols
                              else cols)"
    and "length (columns m) = length cols + (if unmerged_mode cfg rb then 2 else 0)"
    and "batches m = (if unmerged_mode cfg rb then [cell rb] else [])"
    and "nreflections m = int (loop_length lp)"
    and "length (data m) = length (columns m) * loop_length lp"
    and "\<forall>r<loop_length lp.
           3 \<le> length inds \<and> (us \<longrightarrow> 4 \<le> length inds) \<and>
           Suc r * length (columns m) \<le> length (data m) \<and>
           row_written sv (spacegroup rb) (unmerged_mode cfg rb) us lp inds (r * length (tags lp))
             (take (length (columns m)) (drop (r * length (columns m)) (data m)))"
proof -
  let ?unm = "unmerged_mode cfg rb"
  from assms(1) obtain lp' cols0 inds0 us0 cols' d k where b:
    "chosen_loop rb = Some lp'"
    "resolve (category_prefix (hd (tags lp'))) lp' ?unm (spec_entries cfg) ([], [], False)
       = Inr (cols0, inds0, us0)"
    "(if ?unm then add_unmerged_columns cols0 else Inr cols0) = Inr cols'"
    "fill_rows sv (spacegroup rb) ?unm us0 lp' inds0 0
       (replicate (length cols' * loop_length lp') (Num 0), 0) = Inr (d, k)"
    "m = container cfg rb lp' ?unm cols' d"
    by (rule build_mtzE)
  from b(1) assms(2) have lp: "lp' = lp" by simp
  from b(2) assms(3) have r: "cols0 = cols" "inds0 = inds" "us0 = us" by (simp_all add: lp)
  note rl = resolve_lengths[OF assms(3)]
  show li: "length inds = length cols" using rl(1) by simp
  show "us \<longrightarrow> \<not> ?unm" by (rule rl(3))
  have c': "cols' = (if ?unm then take 3 cols @ [misym_column, batch_column] @ drop 3 cols else cols)"
    and c3: "?unm \<longrightarrow> 3 \<le> length cols"
    using b(3) by (auto simp: r add_unmerged_columns_Inr split: if_splits)
  show "?unm \<longrightarrow> 3 \<le> length cols" by (rule c3)
  show cm: "columns m = set_idx (if ?unm then take 3 cols @ [misym_column, batch_column] @ drop 3 cols
                              else cols)"
    by (simp add: b(5) container_def c')
  show lc: "length (columns m) = length cols + (if ?unm then 2 else 0)"
    using c3 by (simp add: cm)
  show "batches m = (if ?unm then [cell rb] else [])"
    by (simp add: b(5) container_def)
  show "nreflections m = int (loop_length lp)"
    by (simp add: b(5) container_def lp)
  have lcols': "length cols' = length (columns m)"
    by (simp add: b(5) container_def)
  have dm: "data m = d" by (simp add: b(5) container_def)
  have w: "length inds + (if ?unm then 2 else 0) = length (columns m)"
    using lc li by simp
  from fill_rows_Inr[OF b(4)] have f:
    "length d = length (columns m) * loop_length lp"
    "\<And>r. r * length (tags lp) < length (loop_values lp) \<Longrightarrow>
       3 \<le> length inds \<and> (us \<longrightarrow> 4 \<le> length inds) \<and>
       Suc r * length (columns m) \<le> length d \<and>
       row_written sv (spacegroup rb) ?unm us lp inds (r * length (tags lp))
         (take (length (columns m)) (drop (r * length (columns m)) d))"
    by (simp_all add: lp r lcols' w)
  show "length (data m) = length (columns m) * loop_length lp"
    by (simp add: dm f(1))
  show "\<forall>r<loop_length lp.
           3 \<le> length inds \<and> (us \<longrightarrow> 4 \<le> length inds) \<and>
           Suc r * length (columns m) \<le> length (data m) \<and>
           row_written sv (spacegroup rb) ?unm us lp inds (r * length (tags lp))
             (take (length (columns m)) (drop (r * length (columns m)) (data m)))"
  proof (intro allI impI)
    fix r assume "r < loop_length lp"
    from f(2)[OF row_in_loop(2)[OF this]] show
      "3 \<le> length inds \<and> (us \<longrightarrow> 4 \<le> length inds) \<and>
       Suc r * length (columns m) \<le> length (data m) \<and>
       row_written sv (spacegroup rb) ?unm us lp inds (r * length (tags lp))
         (take (length (columns m)) (drop (r * length (columns m)) (data m)))"
      unfolding dm by blast
  qed
qed

lemma data_cell:
  assumes "Suc r * w \<le> length d" "c < w"
  shows "d ! (r * w + c) = take w (drop (r * w) d) ! c"
proof -
  from assms have "r * w + c < length d" by simp
  with assms(2) show ?thesis by simp
qed

lemma lead_cells_not_nan: "c < 3 \<Longrightarrow> lead_cells sv g unm h k l ! c \<noteq> NaN"
  by (cases c rule: less_Suc_eq_0_disj[THEN iffD1, elim_format])
     (auto simp: lead_cells_def numeral_3_eq_3 less_Suc_eq split: prod.splits)

lemma row_written_cells:
  assumes "row_written sv g unm us lp inds i cells"
    and "3 \<le> length inds" and "us \<longrightarrow> 4 \<le> length inds" and "us \<longrightarrow> \<not> unm"
  shows "\<forall>c<3. cells ! c \<noteq> NaN"
    and "us \<longrightarrow> cells ! 3 = status_to_freeflag (text_cell lp inds i 3)"
    and "\<forall>j. (if us then 4 else 3) \<le> j \<and> j < length inds \<longrightarrow>
           cells ! (j + (if unm then 2 else 0)) = number_cell sv (text_cell lp inds i j)"
proof -
  from assms(1) obtain h k l where
    cells: "cells = lead_cells sv g unm h k l @ tail_cells sv us lp inds i"
    unfolding row_written_def by blast
  note ll = length_lead_cells
  show "\<forall>c<3. cells ! c \<noteq> NaN"
    using lead_cells_not_nan[of _ sv g unm h k l] by (auto simp: cells nth_append ll)
  show "us \<longrightarrow> cells ! 3 = status_to_freeflag (text_cell lp inds i 3)"
    using assms(4) by (simp add: cells nth_append ll tail_cells_def)
  show "\<forall>j. (if us then 4 else 3) \<le> j \<and> j < length inds \<longrightarrow>
           cells ! (j + (if unm then 2 else 0)) = number_cell sv (text_cell lp inds i j)"
  proof (intro allI impI)
    fix j assume j: "(if us then 4 else 3) \<le> j \<and> j < length inds"
    show "cells ! (j + (if unm then 2 else 0)) = number_cell sv (text_cell lp inds i j)"
    proof (cases us)
      case True
      with assms(4) have nu: "\<not> unm" by simp
      from True j have "j - 3 = Suc (j - 4)" "j - 4 < length inds - 4" "4 + (j - 4) = j" "\<not> j < 3"
        by auto
      then show ?thesis
        by (simp add: cells nth_append ll tail_cells_def True nu)
    next
      case False
      with j have a: "j - 3 < length inds - 3" "3 + (j - 3) = j" "\<not> j < 3" by auto
      have b: "j + 2 - 5 = j - 3" "\<not> j + 2 < 5" using a(3) by simp_all
      show ?thesis
        using a b by (cases unm) (simp_all add: cells nth_append ll tail_cells_def False)
    qed
  qed
qed

subsection \<open>Labels of the resolved columns\<close>

lemma c_label_new_column [simp]: "c_label (new_column e) = col_label e"
  by (simp add: new_column_def)

lemma filter_zip_new_columns:
  assumes "\<forall>e\<in>set sel. col_label e \<noteq> L"
  shows "filter (\<lambda>(c, ix). c_label c = L) (zip (map new_column sel) ixs) = []"
  using assms by (fastforce simp: filter_empty_conv dest!: set_zip_leftD)

lemma filter_zip_fst:
  assumes "length xs = length ys"
  shows "filter Q xs = map fst (filter (\<lambda>(x, y). Q x) (zip xs ys))"
proof -
  have "filter Q xs = filter Q (map fst (zip xs ys))" using assms by simp
  also have "\<dots> = map fst (filter (Q \<circ> fst) (zip xs ys))" by (simp only: filter_map)
  also have "Q \<circ> fst = (\<lambda>(x, y). Q x)" by (simp add: fun_eq_iff)
  finally show ?thesis .
qed

lemma resolve_step_absent:
  assumes "pre @ refln_tag e \<notin> set (tags lp)"
    and "resolve pre lp unm (e # es) st = Inr st'"
  shows "resolve pre lp unm es st = Inr st'"
  using assms by (cases st) (auto simp: Let_def find_tag_none split: if_splits)

lemma resolve_step_duplicate:
  assumes "cols \<noteq> []" "c_label (last cols) = col_label e"
  shows "resolve pre lp unm (e # es) (cols, inds, us) = Inr st' \<Longrightarrow>
         resolve pre lp unm es (cols, inds, us) = Inr st'"
  using assms by (auto simp: Let_def find_tag_none split: if_splits)

lemma resolve_step_append:
  assumes "pre @ refln_tag e \<in> set (tags lp)"
    and "cols = [] \<or> c_label (last cols) \<noteq> col_label e"
    and "\<not> (unm \<and> col_type e = CHR ''s'')"
  shows "resolve pre lp unm (e # es) (cols, inds, us) =
         resolve pre lp unm es (cols @ [new_column e], inds @ [tag_index pre lp e],
                                us \<or> col_type e = CHR ''s'')"
  using assms by (auto simp: Let_def find_tag_none tag_index_def)

lemma resolve_pair:
  assumes "col_label e1 = col_label e2"
    and "\<forall>e\<in>set es1 \<union> set es2. col_label e \<noteq> col_label e2"
    and "resolve pre lp unm (es1 @ e1 # e2 # es2) ([], [], False) = Inr (cols, inds, us)"
    and "pre @ refln_tag e1 \<notin> set (tags lp) \<and> pre @ refln_tag e2 \<in> set (tags lp) \<and>
           \<not> (unm \<and> col_type e2 = CHR ''s'') \<and> e = e2 \<or>
         pre @ refln_tag e1 \<in> set (tags lp) \<and> \<not> (unm \<and> col_type e1 = CHR ''s'') \<and> e = e1"
  shows "filter (\<lambda>(c, ix). c_label c = col_label e2) (zip cols inds) =
           [(new_column e, tag_index pre lp e)]"
proof -
  let ?L = "col_label e2"
  let ?P = "\<lambda>(c, ix). c_label c = ?L"
  from assms(3) obtain st1 where r1: "resolve pre lp unm es1 ([], [], False) = Inr st1"
    and r2: "resolve pre lp unm (e1 # e2 # es2) st1 = Inr (cols, inds, us)"
    unfolding resolve_append by (rule and_then_InrE)
  obtain c1 i1 u1 where st1: "st1 = (c1, i1, u1)" by (cases st1)
  from resolve_grows[OF r1[unfolded st1]] obtain sel1 where s1:
    "c1 = map new_column sel1" "i1 = map (tag_index pre lp) sel1" "set sel1 \<subseteq> set es1"
    by auto
  have n1: "\<forall>e\<in>set sel1. col_label e \<noteq> ?L" using s1(3) assms(2) by auto
  have last1: "c1 = [] \<or> c_label (last c1) \<noteq> ?L"
  proof (cases "sel1 = []")
    case True
    then show ?thesis by (simp add: s1)
  next
    case False
    then have "last sel1 \<in> set sel1" by simp
    with n1 False show ?thesis by (simp add: s1 last_map)
  qed
  have e: "col_label e = ?L" using assms(1,4) by auto
  have "resolve pre lp unm es2 (c1 @ [new_column e], i1 @ [tag_index pre lp e],
          u1 \<or> col_type e = CHR ''s'') = Inr (cols, inds, us)"
    using assms(4)
  proof (elim disjE conjE)
    assume a: "pre @ refln_tag e1 \<notin> set (tags lp)" "pre @ refln_tag e2 \<in> set (tags lp)"
      "\<not> (unm \<and> col_type e2 = CHR ''s'')" "e = e2"
    from resolve_step_absent[OF a(1) r2] have "resolve pre lp unm (e2 # es2) (c1, i1, u1) = Inr (cols, inds, us)"
      by (simp add: st1)
    then show ?thesis
      using resolve_step_append[OF a(2) last1 a(3)] by (simp add: a(4))
  next
    assume a: "pre @ refln_tag e1 \<in> set (tags lp)" "\<not> (unm \<and> col_type e1 = CHR ''s'')" "e = e1"
    from last1 have last1': "c1 = [] \<or> c_label (last c1) \<noteq> col_label e1"
      by (simp add: assms(1))
    from r2 have r3: "resolve pre lp unm (e2 # es2) (c1 @ [new_column e1], i1 @ [tag_index pre lp e1],
          u1 \<or> col_type e1 = CHR ''s'') = Inr (cols, inds, us)"
      unfolding st1 resolve_step_append[OF a(1) last1' a(2)] .
    have "resolve pre lp unm es2 (c1 @ [new_column e1], i1 @ [tag_index pre lp e1],
          u1 \<or> col_type e1 = CHR ''s'') = Inr (cols, inds, us)"
      by (rule resolve_step_duplicate[OF _ _ r3]) (simp_all add: assms(1))
    then show ?thesis by (simp add: a(3))
  qed
  from resolve_grows[OF this] obtain sel2 where s2:
    "cols = (c1 @ [new_column e]) @ map new_column sel2"
    "inds = (i1 @ [tag_index pre lp e]) @ map (tag_index pre lp) sel2" "set sel2 \<subseteq> set es2"
    by auto
  have n2: "\<forall>e\<in>set sel2. col_label e \<noteq> ?L" using s2(3) assms(2) by auto
  have "zip cols inds = zip c1 i1 @ [(new_column e, tag_index pre lp e)] @
          zip (map new_column sel2) (map (tag_index pre lp) sel2)"
    by (simp add: s2 s1)
  then have "filter ?P (zip cols inds) =
      filter ?P (zip (map new_column sel1) i1) @ filter ?P [(new_column e, tag_index pre lp e)] @
      filter ?P (zip (map new_column sel2) (map (tag_index pre lp) sel2))"
    by (simp add: s1)
  then show ?thesis
    by (simp add: filter_zip_new_columns[OF n1] filter_zip_new_columns[OF n2] e)
qed

lemma filter_columns_container:
  assumes "L \<noteq> ''M/ISYM''" "L \<noteq> ''BATCH''" "unm \<longrightarrow> 3 \<le> length cols"
  shows "length (filter (\<lambda>c. c_label c = L)
           (set_idx (if unm then take 3 cols @ [misym_column, batch_column] @ drop 3 cols else cols))) =
         length (filter (\<lambda>c. c_label c = L) cols)"
proof -
  have lab: "map c_label (set_idx xs) = map c_label xs" for xs
    by (simp add: set_idx_def) (induction xs rule: rev_induct, simp_all add: enumerate_append_eq)
  have cnt: "length (filter (\<lambda>c. c_label c = L) xs) = length (filter (\<lambda>l. l = L) (map c_label xs))"
    for xs :: "column list"
    by (simp add: filter_map comp_def)
  have "filter (\<lambda>l. l = L) (map c_label (take 3 cols @ [misym_column, batch_column] @ drop 3 cols)) =
        filter (\<lambda>l. l = L) (map c_label (take 3 cols)) @ filter (\<lambda>l. l = L) (map c_label (drop 3 cols))"
    using assms(1,2) by (auto simp: misym_column_def batch_column_def)
  also have "\<dots> = filter (\<lambda>l. l = L) (map c_label (take 3 cols @ drop 3 cols))"
    by (simp only: map_append filter_append)
  also have "\<dots> = filter (\<lambda>l. l = L) (map c_label cols)"
    by (simp only: append_take_drop_id)
  finally show ?thesis
    by (cases unm) (simp_all only: cnt lab if_True if_False)
qed

lemma resolve_triple:
  assumes "col_label e3 = col_label e1" and "col_label e2 \<noteq> col_label e1"
    and "pre @ refln_tag e1 \<in> set (tags lp)" and "pre @ refln_tag e2 \<in> set (tags lp)"
    and "pre @ refln_tag e3 \<in> set (tags lp)"
    and "unm \<longrightarrow> col_type e1 \<noteq> CHR ''s'' \<and> col_type e2 \<noteq> CHR ''s'' \<and> col_type e3 \<noteq> CHR ''s''"
  shows "\<exists>cols' inds' us'.
           resolve pre lp unm (e1 # e2 # e3 # es) (cols, inds, us) =
           resolve pre lp unm es
             (cols' @ [new_column e2, new_column e3],
              inds' @ [tag_index pre lp e2, tag_index pre lp e3], us') \<and>
           cols' \<noteq> [] \<and> c_label (last cols') = col_label e1 \<and>
           (cols' = cols \<or> cols' = cols @ [new_column e1])"
proof -
  have ns: "\<not> (unm \<and> col_type e1 = CHR ''s'')" "\<not> (unm \<and> col_type e2 = CHR ''s'')"
    "\<not> (unm \<and> col_type e3 = CHR ''s'')"
    using assms(6) by auto
  define D where "D = (cols \<noteq> [] \<and> c_label (last cols) = col_label e1)"
  define cols' where "cols' = (if D then cols else cols @ [new_column e1])"
  define inds' where "inds' = (if D then inds else inds @ [tag_index pre lp e1])"
  define us1 where "us1 = (if D then us else (us \<or> col_type e1 = CHR ''s''))"
  have s1: "resolve pre lp unm (e1 # e2 # e3 # es) (cols, inds, us) =
            resolve pre lp unm (e2 # e3 # es) (cols', inds', us1)"
  proof (cases D)
    case True
    then show ?thesis
      using assms(3) by (simp add: cols'_def inds'_def us1_def D_def Let_def find_tag_none)
  next
    case False
    then have "cols = [] \<or> c_label (last cols) \<noteq> col_label e1" by (auto simp: D_def)
    from resolve_step_append[OF assms(3) this ns(1)] False show ?thesis
      by (simp add: cols'_def inds'_def us1_def)
  qed
  have l: "cols' \<noteq> []" "c_label (last cols') = col_label e1"
    by (auto simp: cols'_def D_def)
  then have "cols' = [] \<or> c_label (last cols') \<noteq> col_label e2" using assms(2) by simp
  note s2 = resolve_step_append[OF assms(4) this ns(2), of "e3 # es" inds' us1]
  have "cols' @ [new_column e2] = [] \<or> c_label (last (cols' @ [new_column e2])) \<noteq> col_label e3"
    using assms(1,2) by simp
  note s3 = resolve_step_append[OF assms(5) this ns(3), of es "inds' @ [tag_index pre lp e2]"
      "us1 \<or> col_type e2 = CHR ''s''"]
  have "resolve pre lp unm (e1 # e2 # e3 # es) (cols, inds, us) =
        resolve pre lp unm es (cols' @ [new_column e2, new_column e3],
          inds' @ [tag_index pre lp e2, tag_index pre lp e3],
          (us1 \<or> col_type e2 = CHR ''s'') \<or> col_type e3 = CHR ''s'')"
    by (simp only: s1 s2 s3 append_assoc append_Cons append_Nil)
  moreover have "cols' = cols \<or> cols' = cols @ [new_column e1]"
    by (simp add: cols'_def)
  ultimately show ?thesis using l by blast
qed

subsection \<open>The loop over the blocks\<close>

lemma convert_all_append:
  "convert_all cfg sv d (bs1 @ bs2) ok fs =
     (case convert_all cfg sv d bs1 ok fs of
        (Inr ok1, fs1) \<Rightarrow> convert_all cfg sv d bs2 ok1 fs1
      | (Inl f, fs1) \<Rightarrow> (Inl f, fs1))"
proof (induction bs1 arbitrary: ok fs)
  case Nil
  then show ?case by simp
next
  case (Cons b bs1)
  show ?case
  proof (cases "convert_block_to_mtz cfg sv b (d @ ''/'' @ block_name b @ ''.mtz'')")
    case (Inl f)
    then show ?thesis by (cases f) (simp_all add: Cons.IH)
  next
    case (Inr written)
    then show ?thesis by (simp add: Cons.IH)
  qed
qed

lemma convert_all_not_ok:
  "convert_all cfg sv d bs False fs = (Inr ok', fs') \<Longrightarrow> \<not> ok'"
proof (induction bs arbitrary: fs)
  case Nil
  then show ?case by simp
next
  case (Cons b bs)
  show ?case
  proof (cases "convert_block_to_mtz cfg sv b (d @ ''/'' @ block_name b @ ''.mtz'')")
    case (Inl f)
    with Cons show ?thesis by (cases f) auto
  next
    case (Inr written)
    with Cons show ?thesis by auto
  qed
qed

lemma convert_write_failure:
  assumes "build_mtz cfg sv rb = Inr m" "write_to_file sv m path = Some (RuntimeError e)"
  shows "convert_block_to_mtz cfg sv rb path = Inl (ProcessExit 3)"
  using assms by (simp add: convert_block_to_mtz_def)

subsection \<open>Evaluation of the fixtures\<close>

lemma load_spec_default: "load_spec None = Inr default_entries"
  unfolding load_spec_def default_spec_def default_entries_def
  by (simp add: add_spec_line_def split_str_into_multi_def is_sep_def Let_def)

lemma resolve_scenario:
  "resolve ''_refln.'' scenario_loop False default_entries ([], [], False) =
   Inr (scenario_columns, [0, 1, 2, 3, 4], False)"
  by (simp add: default_entries_def scenario_loop_def scenario_columns_def find_tag_def new_column_def)

lemma scenario_rows:
  assumes "as_int sv ''1'' = Inr 1" "as_int sv ''2'' = Inr 2" "as_int sv ''3'' = Inr 3"
    and "\<not> is_null sv ''100.0''" "\<not> is_null sv ''5.0''"
    and "as_number sv ''100.0'' = Num 100" "as_number sv ''5.0'' = Num 5"
  shows "fill_rows sv g False False scenario_loop [0, 1, 2, 3, 4] 0
           ([Num 0, Num 0, Num 0, Num 0, Num 0], 0) =
         Inr ([Num 1, Num 2, Num 3, Num 100, Num 5], 5)"
  using assms
  by (simp add: scenario_loop_def fill_rows.simps put_rest.simps fill_row_def read_int_def
      cell_at_def elem_at_def store_def number_cell_def numeral_eq_Suc)

lemma scenario_build:
  assumes "as_int sv ''1'' = Inr 1" "as_int sv ''2'' = Inr 2" "as_int sv ''3'' = Inr 3"
    and "\<not> is_null sv ''100.0''" "\<not> is_null sv ''5.0''"
    and "as_number sv ''100.0'' = Num 100" "as_number sv ''5.0'' = Num 5"
    and "refln_loop rb = Some scenario_loop" "\<not> force_unmerged cfg"
    and "spec_entries cfg = default_entries"
  shows "build_mtz cfg sv rb =
         Inr (container cfg rb scenario_loop False scenario_columns
                [Num 1, Num 2, Num 3, Num 100, Num 5])"
proof -
  have unm: "unmerged_mode cfg rb = False"
    using assms(8,9) by (simp add: unmerged_mode_def)
  have lp: "chosen_loop rb = Some scenario_loop"
    using assms(8) by (simp add: chosen_loop_def)
  have tg: "tags scenario_loop \<noteq> []"
    by (simp add: scenario_loop_def)
  have pre: "category_prefix (hd (tags scenario_loop)) = ''_refln.''"
    by (simp add: scenario_loop_def category_prefix_def)
  have n: "length scenario_columns * loop_length scenario_loop = 5"
    by (simp add: scenario_loop_def scenario_columns_def loop_length_def)
  have rows: "fill_rows sv (spacegroup rb) False False scenario_loop [0, 1, 2, 3, 4] 0
           (replicate (length scenario_columns * loop_length scenario_loop) (Num 0), 0) =
         Inr ([Num 1, Num 2, Num 3, Num 100, Num 5], 5)"
    unfolding n using scenario_rows[OF assms(1-7)] by (simp add: numeral_eq_Suc)
  show ?thesis
    using build_mtzI[OF lp tg, of cfg scenario_columns "[0, 1, 2, 3, 4]" False scenario_columns sv _ 5]
    by (simp only: unm pre assms(10) resolve_scenario rows if_False)
qed

lemma scenario_columns_set_idx:
  "map c_label (set_idx scenario_columns) = [''H'', ''K'', ''L'', ''FP'', ''SIGFP'']"
  "map c_type (set_idx scenario_columns) = ''HHHFQ''"
  by (simp_all add: set_idx_def scenario_columns_def)

lemma test_services_scenario:
  "as_int test_services ''1'' = Inr 1" "as_int test_services ''2'' = Inr 2"
  "as_int test_services ''3'' = Inr 3"
  "\<not> is_null test_services ''100.0''" "\<not> is_null test_services ''5.0''"
  "as_number test_services ''100.0'' = Num 100" "as_number test_services ''5.0'' = Num 5"
  by (simp_all add: test_services_def test_as_int_def test_as_number_def)

section \<open>The claims\<close>

subsection \<open>C1: the scenario of the default spec\<close>

text \<open>
  C1: with the table built from \<^verbatim>\<open>default_spec\<close>, a merged block whose reflection loop
  has the tags \<^verbatim>\<open>index_h\<close>, \<^verbatim>\<open>index_k\<close>, \<^verbatim>\<open>index_l\<close>, \<^verbatim>\<open>F_meas_au\<close>,
  \<^verbatim>\<open>F_meas_sigma_au\<close> and the one row \<open>(1, 2, 3, 100.0, 5.0)\<close> gives a container with
  exactly the columns H, K, L, FP, SIGFP of types H, H, H, F, Q, with
  \<^verbatim>\<open>nreflections = 1\<close> and the data \<open>[1, 2, 3, 100.0, 5.0]\<close>. The parsers of the CIF
  library are parameters: they are assumed to read the five values as written.
\<close>

theorem default_spec_merged_scenario:
  assumes "load_spec None = Inr (spec_entries cfg)"
    and "refln_loop rb = Some scenario_loop" and "\<not> force_unmerged cfg"
    and "as_int sv ''1'' = Inr 1" and "as_int sv ''2'' = Inr 2" and "as_int sv ''3'' = Inr 3"
    and "\<not> is_null sv ''100.0''" and "\<not> is_null sv ''5.0''"
    and "as_number sv ''100.0'' = Num 100" and "as_number sv ''5.0'' = Num 5"
  shows "\<exists>m. build_mtz cfg sv rb = Inr m \<and>
           map c_label (columns m) = [''H'', ''K'', ''L'', ''FP'', ''SIGFP''] \<and>
           map c_type (columns m) = ''HHHFQ'' \<and>
           nreflections m = 1 \<and>
           data m = [Num 1, Num 2, Num 3, Num 100, Num 5]"
proof -
  from assms(1) have spec: "spec_entries cfg = default_entries"
    by (simp add: load_spec_default)
  have n: "loop_length scenario_loop = 1"
    by (simp add: scenario_loop_def loop_length_def)
  from scenario_build[OF assms(4-10) assms(2,3) spec] show ?thesis
    by (simp add: container_def scenario_columns_set_idx n)
qed

theorem default_spec_merged_scenario_witness:
  "load_spec None = Inr (spec_entries (test_cfg default_entries)) \<and>
   refln_loop (merged_block ''b'' scenario_loop) = Some scenario_loop \<and>
   (\<exists>m. build_mtz (test_cfg default_entries) test_services (merged_block ''b'' scenario_loop) = Inr m \<and>
        map c_label (columns m) = [''H'', ''K'', ''L'', ''FP'', ''SIGFP''] \<and>
        map c_type (columns m) = ''HHHFQ'' \<and>
        nreflections m = 1 \<and>
        data m = [Num 1, Num 2, Num 3, Num 100, Num 5])"
proof -
  have spec: "load_spec None = Inr (spec_entries (test_cfg default_entries))"
    by (simp add: load_spec_default test_cfg_def)
  have lp: "refln_loop (merged_block ''b'' scenario_loop) = Some scenario_loop"
    by (simp add: merged_block_def)
  have nf: "\<not> force_unmerged (test_cfg default_entries)"
    by (simp add: test_cfg_def)
  from default_spec_merged_scenario[OF spec lp nf test_services_scenario] spec lp
  show ?thesis by simp
qed

subsection \<open>C2: the shape of an unmerged container\<close>



subsection \<open>C3: null markers\<close>

text \<open>
  C3, as stated, fails: a null marker in a Miller index column is handed to the integer
  parser, not written as NaN. With a parser that rejects it the conversion of the block
  fails and no cell is written.
\<close>

theorem null_miller_index_counterexample:
  "is_null test_services (loop_values null_index_loop ! 0) \<and>
   find_tag null_index_loop ''_refln.index_h'' = 0 \<and>
   build_mtz (test_cfg default_entries) test_services (merged_block ''b'' null_index_loop) =
     Inl (RuntimeError ''not an integer: ?'')"
  by code_simp

text \<open>
  C3, amended: in every row, a source cell holding the null marker becomes NaN in the
  destination cell of its column when the column is a resolved column after the three
  leading ones and after the status column (the destination cell is at the resolved
  position, two further in unmerged mode). The three leading cells of a row are integers
  converted to float, never NaN: there the text goes to the integer parser. The cell
  at position 3, when a status entry resolved, is the status re-encoding of the text,
  which is NaN for the markers \<^verbatim>\<open>?\<close> and \<^verbatim>\<open>.\<close>.
\<close>

theorem null_cells_become_nan:
  assumes "build_mtz cfg sv rb = Inr m" and "chosen_loop rb = Some lp"
    and "resolve (category_prefix (hd (tags lp))) lp (unmerged_mode cfg rb) (spec_entries cfg)
           ([], [], False) = Inr (cols, inds, us)"
    and "r < loop_length lp"
  shows "(\<forall>j. (if us then 4 else 3) \<le> j \<and> j < length inds \<and>
              is_null sv (loop_values lp ! (r * length (tags lp) + nat (inds ! j))) \<longrightarrow>
              data m ! (r * length (columns m) + (j + (if unmerged_mode cfg rb then 2 else 0))) = NaN \<and>
              columns m ! (j + (if unmerged_mode cfg rb then 2 else 0)) =
                (cols ! j)\<lparr>c_idx := j + (if unmerged_mode cfg rb then 2 else 0)\<rparr>) \<and>
         (\<forall>c<3. data m ! (r * length (columns m) + c) \<noteq> NaN) \<and>
         (us \<longrightarrow> data m ! (r * length (columns m) + 3) =
                  status_to_freeflag (loop_values lp ! (r * length (tags lp) + nat (inds ! 3)))) \<and>
         status_to_freeflag ''?'' = NaN \<and> status_to_freeflag ''.'' = NaN"
proof -
  let ?unm = "unmerged_mode cfg rb"
  let ?w = "length (columns m)"
  let ?off = "if ?unm then 2 else 0 :: nat"
  let ?cells = "take ?w (drop (r * ?w) (data m))"
  note sh = build_mtz_shape[OF assms(1-3)]
  from sh(9) assms(4) have row: "3 \<le> length inds" "us \<longrightarrow> 4 \<le> length inds"
    "Suc r * ?w \<le> length (data m)"
    "row_written sv (spacegroup rb) ?unm us lp inds (r * length (tags lp)) ?cells"
    by blast+
  note rc = row_written_cells[OF row(4) row(1,2) sh(2)]
  have w: "?w = length inds + ?off" using sh(1,5) by simp
  have cell: "data m ! (r * ?w + c) = ?cells ! c" if "c < ?w" for c
    using row(3) that by (rule data_cell)
  have A: "data m ! (r * ?w + (j + ?off)) = NaN \<and> columns m ! (j + ?off) = (cols ! j)\<lparr>c_idx := j + ?off\<rparr>"
    if j: "(if us then 4 else 3) \<le> j \<and> j < length inds \<and>
           is_null sv (loop_values lp ! (r * length (tags lp) + nat (inds ! j)))" for j
  proof -
    from j have jw: "j + ?off < ?w" by (simp add: w)
    from j have j3: "3 \<le> j" by (cases us) simp_all
    from rc(3) j have "?cells ! (j + ?off) = number_cell sv (text_cell lp inds (r * length (tags lp)) j)"
      by blast
    with j have "?cells ! (j + ?off) = NaN"
      by (simp add: number_cell_def text_cell_def)
    with cell[OF jw] have d: "data m ! (r * ?w + (j + ?off)) = NaN" by simp
    have "columns m ! (j + ?off) = (cols ! j)\<lparr>c_idx := j + ?off\<rparr>"
    proof (cases ?unm)
      case True
      with sh(3) have c3: "3 \<le> length cols" by simp
      have "(take 3 cols @ [misym_column, batch_column] @ drop 3 cols) ! (j + 2) = cols ! j"
        using c3 j3 j sh(1) by (simp add: nth_append)
      with True c3 j sh(1) show ?thesis by (simp add: sh(4) nth_set_idx)
    next
      case False
      with j sh(1) show ?thesis by (simp add: sh(4) nth_set_idx)
    qed
    with d show ?thesis by simp
  qed
  have B: "data m ! (r * ?w + c) \<noteq> NaN" if "c < 3" for c
  proof -
    from that row(1) have "c < ?w" by (simp add: w)
    from cell[OF this] rc(1) that show ?thesis by simp
  qed
  have C: "data m ! (r * ?w + 3) = status_to_freeflag (loop_values lp ! (r * length (tags lp) + nat (inds ! 3)))"
    if us
  proof -
    from that row(2) have "3 < ?w" by (simp add: w)
    from cell[OF this] rc(2) that show ?thesis by (simp add: text_cell_def)
  qed
  have D: "status_to_freeflag ''?'' = NaN" "status_to_freeflag ''.'' = NaN"
    by (simp_all add: status_to_freeflag_def char_at_def)
  from A B C D show ?thesis by blast
qed

theorem null_cells_become_nan_witness:
  "\<exists>m cols. build_mtz (test_cfg default_entries) test_services (merged_block ''b'' null_value_loop) = Inr m \<and>
     chosen_loop (merged_block ''b'' null_value_loop) = Some null_value_loop \<and>
     resolve (category_prefix (hd (tags null_value_loop))) null_value_loop
       (unmerged_mode (test_cfg default_entries) (merged_block ''b'' null_value_loop))
       (spec_entries (test_cfg default_entries)) ([], [], False) = Inr (cols, [0, 1, 2, 3, 4], False) \<and>
     (0::nat) < loop_length null_value_loop \<and>
     is_null test_services (loop_values null_value_loop ! 3) \<and>
     data m ! 3 = NaN \<and> c_label (columns m ! 3) = ''FP'' \<and>
     data m ! 0 \<noteq> NaN \<and> data m ! 1 \<noteq> NaN \<and> data m ! 2 \<noteq> NaN \<and>
     data m = [Num 1, Num 2, Num 3, NaN, Num 5]"
proof -
  let ?cfg = "test_cfg default_entries"
  let ?rb = "merged_block ''b'' null_value_loop"
  let ?res = "resolve (category_prefix (hd (tags null_value_loop))) null_value_loop
       (unmerged_mode ?cfg ?rb) (spec_entries ?cfg) ([], [], False)"
  have "\<not> isl (build_mtz ?cfg test_services ?rb)" by code_simp
  then obtain m where m: "build_mtz ?cfg test_services ?rb = Inr m"
    by (cases "build_mtz ?cfg test_services ?rb") simp_all
  have ev: "data (projr (build_mtz ?cfg test_services ?rb)) = [Num 1, Num 2, Num 3, NaN, Num 5]"
    "c_label (columns (projr (build_mtz ?cfg test_services ?rb)) ! 3) = ''FP''"
    by code_simp+
  have l: "chosen_loop ?rb = Some null_value_loop" by (simp add: chosen_loop_def merged_block_def)
  have "\<not> isl ?res \<and> snd (projr ?res) = ([0, 1, 2, 3, 4], False)"
    by code_simp
  then obtain cols where r: "?res = Inr (cols, [0, 1, 2, 3, 4], False)"
    by (cases ?res) auto
  have n: "(0::nat) < loop_length null_value_loop" by (simp add: loop_length_def null_value_loop_def)
  have nul: "is_null test_services (loop_values null_value_loop ! 3)"
    by (simp add: test_services_def null_value_loop_def)
  have um: "\<not> unmerged_mode ?cfg ?rb"
    by (simp add: unmerged_mode_def test_cfg_def merged_block_def)
  note th = null_cells_become_nan[OF m l r n]
  from th um nul have "data m ! (0 * length (columns m) + (3 + 0)) = NaN"
    by (simp add: null_value_loop_def)
  then have d3: "data m ! 3 = NaN" by simp
  from th have "\<forall>c<3. data m ! (0 * length (columns m) + c) \<noteq> NaN" by blast
  then have d012: "data m ! 0 \<noteq> NaN" "data m ! 1 \<noteq> NaN" "data m ! 2 \<noteq> NaN" by simp_all
  from m l r n nul d3 d012 ev show ?thesis by (intro exI[of _ m] exI[of _ cols]) simp
qed

subsection \<open>C4: a missing Miller index tag\<close>

text \<open>
  C4: when the spec table has an entry of type \<^verbatim>\<open>H\<close> whose tag is not among the tags
  of the block's reflection loop, the conversion of the block fails with the error
  \<^verbatim>\<open>Miller index tag not found:\<close> followed by the missing tag (of the first such entry of
  the table), whatever the services do. No file is written for the block: with
  \<^verbatim>\<open>--dir\<close> the loop over the blocks goes on with \<^verbatim>\<open>ok = false\<close> and the files it had,
  and a run for one file ends with status 1 and no file. Removing one of the three
  index tags from a loop is the case of the entries \<^verbatim>\<open>index_h\<close>, \<^verbatim>\<open>index_k\<close>,
  \<^verbatim>\<open>index_l\<close> of the default table.
\<close>

theorem missing_index_tag_fails:
  assumes "chosen_loop rb = Some lp" and "tags lp \<noteq> []"
    and "e \<in> set (spec_entries cfg)" and "col_type e = CHR ''H''"
    and "category_prefix (hd (tags lp)) @ refln_tag e \<notin> set (tags lp)"
  shows "\<exists>e'\<in>set (spec_entries cfg). col_type e' = CHR ''H'' \<and>
           category_prefix (hd (tags lp)) @ refln_tag e' \<notin> set (tags lp) \<and>
           (\<forall>path. convert_block_to_mtz cfg sv rb path =
              Inl (RuntimeError (''Miller index tag not found: '' @
                     category_prefix (hd (tags lp)) @ refln_tag e'))) \<and>
           (\<forall>dir rbs ok files.
              convert_all cfg sv dir (rb # rbs) ok files = convert_all cfg sv dir rbs False files) \<and>
           (\<forall>path rbs. run_conversion cfg sv None None path (rb # rbs) = (Exit 1, []))"
proof -
  from build_mtz_missing_index[OF assms, of sv] obtain e' where e': "e' \<in> set (spec_entries cfg)"
    "col_type e' = CHR ''H''" "category_prefix (hd (tags lp)) @ refln_tag e' \<notin> set (tags lp)"
    "build_mtz cfg sv rb =
       Inl (RuntimeError (''Miller index tag not found: '' @ category_prefix (hd (tags lp)) @ refln_tag e'))"
    by blast
  note c = convert_runtime_error[OF e'(4)]
  have "\<forall>dir rbs ok files.
      convert_all cfg sv dir (rb # rbs) ok files = convert_all cfg sv dir rbs False files"
    by (simp add: c)
  moreover have "\<forall>path rbs. run_conversion cfg sv None None path (rb # rbs) = (Exit 1, [])"
    by (simp add: run_conversion_def c)
  ultimately show ?thesis using e'(1-3) c by blast
qed

theorem missing_index_tag_fails_witness:
  "chosen_loop (merged_block ''b'' loop_without_k) = Some loop_without_k \<and>
   tags loop_without_k \<noteq> [] \<and>
   default_entries ! 1 \<in> set (spec_entries (test_cfg default_entries)) \<and>
   col_type (default_entries ! 1) = CHR ''H'' \<and>
   category_prefix (hd (tags loop_without_k)) @ refln_tag (default_entries ! 1) = ''_refln.index_k'' \<and>
   ''_refln.index_k'' \<notin> set (tags loop_without_k) \<and>
   convert_block_to_mtz (test_cfg default_entries) test_services
     (merged_block ''b'' loop_without_k) ''out.mtz'' =
     Inl (RuntimeError ''Miller index tag not found: _refln.index_k'') \<and>
   run_conversion (test_cfg default_entries) test_services None None ''out.mtz''
     [merged_block ''b'' loop_without_k] = (Exit 1, [])"
proof -
  let ?rb = "merged_block ''b'' loop_without_k"
  let ?cfg = "test_cfg default_entries"
  have h1: "chosen_loop ?rb = Some loop_without_k"
    by (simp add: chosen_loop_def merged_block_def)
  have h2: "tags loop_without_k \<noteq> []"
    by (simp add: loop_without_k_def)
  have h3: "default_entries ! 1 \<in> set (spec_entries ?cfg)"
    by (simp add: test_cfg_def default_entries_def)
  have h4: "col_type (default_entries ! 1) = CHR ''H''"
    by (simp add: default_entries_def)
  have h5: "category_prefix (hd (tags loop_without_k)) @ refln_tag (default_entries ! 1) = ''_refln.index_k''"
    by (simp add: loop_without_k_def category_prefix_def default_entries_def)
  have h6: "''_refln.index_k'' \<notin> set (tags loop_without_k)"
    by (simp add: loop_without_k_def)
  have ev: "convert_block_to_mtz ?cfg test_services ?rb ''out.mtz'' =
     Inl (RuntimeError ''Miller index tag not found: _refln.index_k'')"
    by code_simp
  from missing_index_tag_fails[OF h1 h2 h3 h4, of test_services] h5 h6
  have "run_conversion ?cfg test_services None None ''out.mtz'' [?rb] = (Exit 1, [])"
    by auto
  with h1 h2 h3 h4 h5 h6 ev show ?thesis by simp
qed

subsection \<open>C5: consecutive entries with the same label\<close>

text \<open>
  C5, as stated, fails: with the default table, where \<^verbatim>\<open>pdbx_r_free_flag\<close> and
  \<^verbatim>\<open>status\<close> are consecutive entries for the label \<^verbatim>\<open>FreeR_flag\<close>, a loop that has
  \<^verbatim>\<open>status\<close> and not \<^verbatim>\<open>pdbx_r_free_flag\<close>, converted in unmerged mode, gives a
  container with no column \<^verbatim>\<open>FreeR_flag\<close>.
\<close>

theorem status_alternative_dropped_counterexample:
  "col_label (default_entries ! 3) = col_label (default_entries ! 4) \<and>
   ''_refln.'' @ refln_tag (default_entries ! 3) \<notin> set (tags status_loop) \<and>
   ''_refln.'' @ refln_tag (default_entries ! 4) \<in> set (tags status_loop) \<and>
   map_sum id (\<lambda>m. map c_label (columns m))
     (build_mtz (forced_cfg default_entries) test_services (merged_block ''b'' status_loop)) =
     Inr [''H'', ''K'', ''L'', ''M/ISYM'', ''BATCH'', ''FP'']"
  by code_simp

text \<open>
  C5, amended: let the spec table have two consecutive entries with the same label, a
  label that no other entry of the table has and that is not \<^verbatim>\<open>M/ISYM\<close> or \<^verbatim>\<open>BATCH\<close>,
  and let the conversion build its container (so no entry of type \<^verbatim>\<open>H\<close>, the first of
  the two included, lacks its tag). When only the second entry's tag is in the loop, and
  the second entry is not a status entry in unmerged mode, the resolver takes the second
  entry: exactly one resolved column has the label, it is the second entry's column and
  reads the second entry's tag; the container has exactly one column with the label.
  When the first entry's tag is in the loop, and the first entry is not a status entry in
  unmerged mode, the one column with the label is the first entry's and the second entry
  is skipped.
\<close>

theorem consecutive_alternatives:
  assumes "build_mtz cfg sv rb = Inr m" and "chosen_loop rb = Some lp"
    and "resolve (category_prefix (hd (tags lp))) lp (unmerged_mode cfg rb) (spec_entries cfg)
           ([], [], False) = Inr (cols, inds, us)"
    and "spec_entries cfg = es1 @ e1 # e2 # es2"
    and "col_label e1 = col_label e2"
    and "\<forall>e\<in>set es1 \<union> set es2. col_label e \<noteq> col_label e2"
    and "col_label e2 \<noteq> ''M/ISYM''" and "col_label e2 \<noteq> ''BATCH''"
  shows "(category_prefix (hd (tags lp)) @ refln_tag e1 \<notin> set (tags lp) \<and>
          category_prefix (hd (tags lp)) @ refln_tag e2 \<in> set (tags lp) \<and>
          \<not> (unmerged_mode cfg rb \<and> col_type e2 = CHR ''s'') \<longrightarrow>
            filter (\<lambda>(c, ix). c_label c = col_label e2) (zip cols inds) =
              [(new_column e2, find_tag lp (category_prefix (hd (tags lp)) @ refln_tag e2))] \<and>
            length (filter (\<lambda>c. c_label c = col_label e2) (columns m)) = 1) \<and>
         (category_prefix (hd (tags lp)) @ refln_tag e1 \<in> set (tags lp) \<and>
          \<not> (unmerged_mode cfg rb \<and> col_type e1 = CHR ''s'') \<longrightarrow>
            filter (\<lambda>(c, ix). c_label c = col_label e2) (zip cols inds) =
              [(new_column e1, find_tag lp (category_prefix (hd (tags lp)) @ refln_tag e1))] \<and>
            length (filter (\<lambda>c. c_label c = col_label e2) (columns m)) = 1)"
proof -
  let ?pre = "category_prefix (hd (tags lp))"
  let ?unm = "unmerged_mode cfg rb"
  let ?L = "col_label e2"
  note sh = build_mtz_shape[OF assms(1-3)]
  note res = assms(3)[unfolded assms(4)]
  have one: "length (filter (\<lambda>c. c_label c = ?L) (columns m)) = 1"
    if "filter (\<lambda>(c, ix). c_label c = ?L) (zip cols inds) = [x]" for x
  proof -
    have "filter (\<lambda>c. c_label c = ?L) cols =
          map fst (filter (\<lambda>(c, ix). c_label c = ?L) (zip cols inds))"
      using sh(1) by (intro filter_zip_fst) simp
    with that have "length (filter (\<lambda>c. c_label c = ?L) cols) = 1" by simp
    with filter_columns_container[OF assms(7,8) sh(3)] show ?thesis
      by (simp only: sh(4))
  qed
  have A: "filter (\<lambda>(c, ix). c_label c = ?L) (zip cols inds) = [(new_column e2, find_tag lp (?pre @ refln_tag e2))]"
    if "?pre @ refln_tag e1 \<notin> set (tags lp)" "?pre @ refln_tag e2 \<in> set (tags lp)"
      "\<not> (?unm \<and> col_type e2 = CHR ''s'')"
    using resolve_pair[OF assms(5,6) res, of e2] that by (simp add: tag_index_def)
  have B: "filter (\<lambda>(c, ix). c_label c = ?L) (zip cols inds) = [(new_column e1, find_tag lp (?pre @ refln_tag e1))]"
    if "?pre @ refln_tag e1 \<in> set (tags lp)" "\<not> (?unm \<and> col_type e1 = CHR ''s'')"
    using resolve_pair[OF assms(5,6) res, of e1] that by (simp add: tag_index_def)
  from A B one show ?thesis by blast
qed

theorem consecutive_alternatives_witness:
  "\<exists>m cols inds us.
     build_mtz (test_cfg default_entries) test_services (merged_block ''b'' status_loop) = Inr m \<and>
     chosen_loop (merged_block ''b'' status_loop) = Some status_loop \<and>
     resolve (category_prefix (hd (tags status_loop))) status_loop
       (unmerged_mode (test_cfg default_entries) (merged_block ''b'' status_loop))
       (spec_entries (test_cfg default_entries)) ([], [], False) = Inr (cols, inds, us) \<and>
     spec_entries (test_cfg default_entries) =
       take 3 default_entries @ default_entries ! 3 # default_entries ! 4 # drop 5 default_entries \<and>
     col_label (default_entries ! 3) = ''FreeR_flag'' \<and>
     col_label (default_entries ! 4) = ''FreeR_flag'' \<and>
     ''_refln.pdbx_r_free_flag'' \<notin> set (tags status_loop) \<and>
     ''_refln.status'' \<in> set (tags status_loop) \<and>
     filter (\<lambda>(c, ix). c_label c = ''FreeR_flag'') (zip cols inds) =
       [(\<lparr>c_dataset_id = 0, c_type = CHR ''I'', c_label = ''FreeR_flag'', c_idx = 0\<rparr>, 3)] \<and>
     length (filter (\<lambda>c. c_label c = ''FreeR_flag'') (columns m)) = 1"
proof -
  let ?cfg = "test_cfg default_entries"
  let ?rb = "merged_block ''b'' status_loop"
  let ?res = "resolve (category_prefix (hd (tags status_loop))) status_loop
       (unmerged_mode ?cfg ?rb) (spec_entries ?cfg) ([], [], False)"
  let ?e1 = "default_entries ! 3"
  let ?e2 = "default_entries ! 4"
  have "\<not> isl (build_mtz ?cfg test_services ?rb)" by code_simp
  then obtain m where m: "build_mtz ?cfg test_services ?rb = Inr m"
    by (cases "build_mtz ?cfg test_services ?rb") simp_all
  have l: "chosen_loop ?rb = Some status_loop" by (simp add: chosen_loop_def merged_block_def)
  have "\<not> isl ?res" by code_simp
  then obtain cols inds us where r: "?res = Inr (cols, inds, us)"
    by (cases ?res) auto
  have sp: "spec_entries ?cfg = take 3 default_entries @ ?e1 # ?e2 # drop 5 default_entries"
    by (simp add: test_cfg_def default_entries_def)
  have lab: "col_label ?e1 = ''FreeR_flag''" "col_label ?e2 = ''FreeR_flag''"
    by (simp_all add: default_entries_def)
  have uniq: "\<forall>e\<in>set (take 3 default_entries) \<union> set (drop 5 default_entries).
               col_label e \<noteq> col_label ?e2"
    by (simp add: default_entries_def)
  have pre: "category_prefix (hd (tags status_loop)) = ''_refln.''"
    by (simp add: status_loop_def category_prefix_def)
  have t: "''_refln.pdbx_r_free_flag'' \<notin> set (tags status_loop)"
    "''_refln.status'' \<in> set (tags status_loop)"
    by (simp_all add: status_loop_def)
  have t': "category_prefix (hd (tags status_loop)) @ refln_tag ?e1 \<notin> set (tags status_loop)"
    "category_prefix (hd (tags status_loop)) @ refln_tag ?e2 \<in> set (tags status_loop)"
    using t by (simp_all add: pre default_entries_def)
  have um: "\<not> unmerged_mode ?cfg ?rb"
    by (simp add: unmerged_mode_def test_cfg_def merged_block_def)
  have ne: "col_label ?e2 \<noteq> ''M/ISYM''" "col_label ?e2 \<noteq> ''BATCH''"
    by (simp_all add: lab)
  have e1e2: "col_label ?e1 = col_label ?e2" by (simp add: lab)
  note th = consecutive_alternatives[OF m l r sp e1e2 uniq ne]
  from th t' um have
    "filter (\<lambda>(c, ix). c_label c = col_label ?e2) (zip cols inds) =
       [(new_column ?e2, find_tag status_loop (category_prefix (hd (tags status_loop)) @ refln_tag ?e2))]"
    "length (filter (\<lambda>c. c_label c = col_label ?e2) (columns m)) = 1"
    by blast+
  moreover have "new_column ?e2 = \<lparr>c_dataset_id = 0, c_type = CHR ''I'', c_label = ''FreeR_flag'', c_idx = 0\<rparr>"
    by (simp add: new_column_def default_entries_def)
  moreover have "find_tag status_loop (category_prefix (hd (tags status_loop)) @ refln_tag ?e2) = 3"
    unfolding pre by (simp add: default_entries_def find_tag_def status_loop_def)
  ultimately have f: "filter (\<lambda>(c, ix). c_label c = ''FreeR_flag'') (zip cols inds) =
       [(\<lparr>c_dataset_id = 0, c_type = CHR ''I'', c_label = ''FreeR_flag'', c_idx = 0\<rparr>, 3)]"
    "length (filter (\<lambda>c. c_label c = ''FreeR_flag'') (columns m)) = 1"
    by (simp_all add: lab)
  from m l r sp lab t f show ?thesis
    by (intro exI[of _ m] exI[of _ cols] exI[of _ inds] exI[of _ us]) simp
qed

subsection \<open>C6: a block with the diffrn category only\<close>

text \<open>
  C6: the flag \<^verbatim>\<open>unmerged\<close> of a conversion is the forced flag or the absence of a
  merged loop. So a block that has no merged loop is converted in unmerged mode
  without the flag: its conversion is the conversion with the flag set, and a container
  built for it has the columns \<^verbatim>\<open>M/ISYM\<close> and \<^verbatim>\<open>BATCH\<close> at 3 and 4 and one batch.
\<close>

theorem diffrn_only_block_is_unmerged:
  "unmerged_mode cfg rb = (force_unmerged cfg \<or> refln_loop rb = None) \<and>
   (refln_loop rb = None \<longrightarrow>
      unmerged_mode cfg rb \<and>
      build_mtz cfg sv rb = build_mtz (cfg\<lparr>force_unmerged := True\<rparr>) sv rb \<and>
      (\<forall>m. build_mtz cfg sv rb = Inr m \<longrightarrow>
           5 \<le> length (columns m) \<and>
           columns m ! 3 = misym_column\<lparr>c_idx := 3\<rparr> \<and>
           columns m ! 4 = batch_column\<lparr>c_idx := 4\<rparr> \<and>
           batches m = [cell rb]))"
proof -
  have a: "unmerged_mode cfg rb = (force_unmerged cfg \<or> refln_loop rb = None)"
    by (simp add: unmerged_mode_def)
  have b: "build_mtz cfg sv rb = build_mtz (cfg\<lparr>force_unmerged := True\<rparr>) sv rb"
    if "refln_loop rb = None"
    using that by (cases "chosen_loop rb") (simp_all add: build_mtz_def unmerged_mode_def Let_def)
  have c: "5 \<le> length (columns m) \<and> columns m ! 3 = misym_column\<lparr>c_idx := 3\<rparr> \<and>
           columns m ! 4 = batch_column\<lparr>c_idx := 4\<rparr> \<and> batches m = [cell rb]"
    if n: "refln_loop rb = None" and m: "build_mtz cfg sv rb = Inr m" for m
  proof -
    have u: "unmerged_mode cfg rb" using n by (simp add: unmerged_mode_def)
    from m obtain lp cols cols' d where
      ac: "(if unmerged_mode cfg rb then add_unmerged_columns cols else Inr cols) = Inr cols'"
      and mm: "m = container cfg rb lp (unmerged_mode cfg rb) cols' d"
      by (rule build_mtzE)
    from ac u have c': "3 \<le> length cols"
      "cols' = take 3 cols @ [misym_column, batch_column] @ drop 3 cols"
      by (simp_all add: add_unmerged_columns_Inr)
    then have l: "length cols' = length cols + 2" by simp
    have "cols' ! 3 = misym_column" "cols' ! 4 = batch_column"
      using c' by (simp_all add: nth_append)
    with l c'(1) show ?thesis
      by (simp add: mm container_def u nth_set_idx)
  qed
  from a b c show ?thesis by (simp add: unmerged_mode_def)
qed

theorem diffrn_only_block_is_unmerged_witness:
  "refln_loop (diffrn_block ''b'' unmerged_loop) = None \<and>
   \<not> force_unmerged (test_cfg default_entries) \<and>
   unmerged_mode (test_cfg default_entries) (diffrn_block ''b'' unmerged_loop) \<and>
   (\<exists>m. build_mtz (test_cfg default_entries) test_services (diffrn_block ''b'' unmerged_loop) = Inr m \<and>
        columns m ! 3 = misym_column\<lparr>c_idx := 3\<rparr> \<and>
        columns m ! 4 = batch_column\<lparr>c_idx := 4\<rparr> \<and>
        batches m = [()])"
proof -
  let ?rb = "diffrn_block ''b'' unmerged_loop"
  let ?cfg = "test_cfg default_entries"
  have n: "refln_loop ?rb = None" by (simp add: diffrn_block_def)
  have f: "\<not> force_unmerged ?cfg" by (simp add: test_cfg_def)
  have "\<not> isl (build_mtz ?cfg test_services ?rb)" by code_simp
  then obtain m where m: "build_mtz ?cfg test_services ?rb = Inr m"
    by (cases "build_mtz ?cfg test_services ?rb") simp_all
  from diffrn_only_block_is_unmerged[of ?cfg ?rb test_services] n m
  have "unmerged_mode ?cfg ?rb" "columns m ! 3 = misym_column\<lparr>c_idx := 3\<rparr>"
    "columns m ! 4 = batch_column\<lparr>c_idx := 4\<rparr>" "batches m = [cell ?rb]"
    by simp_all
  with n f m show ?thesis by simp
qed

subsection \<open>C7: the status flag\<close>

text \<open>
  C7, as stated, fails: the value \<^verbatim>\<open>ox\<close> is neither \<^verbatim>\<open>o\<close> nor \<^verbatim>\<open>f\<close>, and it is
  mapped to 1.0, not to NaN.
\<close>

theorem status_to_freeflag_other_string_counterexample:
  "status_to_freeflag ''ox'' = Num 1"
  by (simp add: status_to_freeflag_def char_at_def)

text \<open>
  C7, amended: \<^verbatim>\<open>status_to_freeflag\<close> looks at one character only, the first one, or
  the second one when the first is a single or a double quote. That character \<^verbatim>\<open>o\<close>
  gives 1.0, \<^verbatim>\<open>f\<close> gives 0.0, any other character and the end of the string give NaN;
  what follows the character is ignored. So \<^verbatim>\<open>o\<close> gives 1.0, and \<^verbatim>\<open>f\<close> and the quoted
  \<^verbatim>\<open>'f'\<close> give 0.0.
\<close>

theorem status_to_freeflag_first_character:
  "status_to_freeflag ''o'' = Num 1 \<and>
   status_to_freeflag ''f'' = Num 0 \<and>
   status_to_freeflag [CHR 0x27, CHR ''f'', CHR 0x27] = Num 0 \<and>
   status_to_freeflag s =
     (case (case s of [] \<Rightarrow> [] | c # r \<Rightarrow> if c = CHR 0x27 \<or> c = CHR 0x22 then r else s) of
        [] \<Rightarrow> NaN
      | c # r \<Rightarrow> if c = CHR ''o'' then Num 1 else if c = CHR ''f'' then Num 0 else NaN)"
  by (auto simp: status_to_freeflag_def char_at_def Let_def split: list.splits)

subsection \<open>C8: where the status re-encoding is applied\<close>

text \<open>
  C8 fails on the code. With a spec file that lists the status entry after
  \<^verbatim>\<open>F_meas_au\<close>, the row \<open>(1, 2, 3, 100.0, o)\<close> of a merged loop is written as
  \<open>[1, 2, 3, NaN, NaN]\<close>: the status re-encoding is applied at position 3, to the text
  \<^verbatim>\<open>100.0\<close> of the column \<^verbatim>\<open>FP\<close>, and the status value \<^verbatim>\<open>o\<close> of the column
  \<^verbatim>\<open>FreeR_flag\<close> at position 4 goes to the number parser. The claim asks for
  \<open>[1, 2, 3, 100.0, 1.0]\<close>.
\<close>

theorem status_reencoding_at_position_3:
  "\<not> isl (load_spec (Some status_last_spec)) \<and>
   map_sum id (\<lambda>m. (map c_label (columns m), data m))
     (build_mtz (test_cfg (projr (load_spec (Some status_last_spec)))) test_services
        (merged_block ''b'' status_last_loop)) =
     Inr ([''H'', ''K'', ''L'', ''FP'', ''FreeR_flag''], [Num 1, Num 2, Num 3, NaN, NaN]) \<and>
   as_number test_services ''100.0'' = Num 100 \<and>
   status_to_freeflag ''o'' = Num 1"
  by code_simp

subsection \<open>C9: a failure of the writer\<close>

text \<open>
  C9, as stated, fails: with \<^verbatim>\<open>--dir\<close> and two blocks, when the writer fails for the
  file of the first block, the run ends with status 3 and no file, although the second
  block converts and its file can be written.
\<close>

theorem write_failure_in_directory_mode_counterexample:
  "run_conversion (test_cfg default_entries) failing_services (Some ''out'') None []
     [merged_block ''a'' scenario_loop, merged_block ''b'' scenario_loop] = (Exit 3, []) \<and>
   \<not> isl (convert_block_to_mtz (test_cfg default_entries) failing_services
            (merged_block ''b'' scenario_loop) ''out/b.mtz'')"
  by code_simp

text \<open>
  C9, amended: a \<^verbatim>\<open>std::runtime_error\<close> of the writer ends the whole run at once with
  exit status 3, with \<^verbatim>\<open>--dir\<close> as well as for one output file: the blocks after the
  failing one are not converted, and the files are those written before it. What is
  fatal for one block only, with \<^verbatim>\<open>--dir\<close>, is a \<^verbatim>\<open>std::runtime_error\<close> thrown before
  the write: the loop goes on with the remaining blocks, and when it comes to its end
  the run has status 1.
\<close>

theorem write_failure_ends_the_run:
  assumes "build_mtz cfg sv rb = Inr m"
    and "write_to_file sv m (d @ ''/'' @ block_name rb @ ''.mtz'') = Some (RuntimeError e)"
    and "convert_all cfg sv d bs1 True [] = (Inr ok1, files1)"
  shows "run_conversion cfg sv (Some d) block path (bs1 @ rb # bs2) = (Exit 3, files1) \<and>
         (write_to_file sv m path = Some (RuntimeError e) \<longrightarrow>
            run_conversion cfg sv None None path (rb # bs2) = (Exit 3, [])) \<and>
         (\<forall>rb' e' bs ok files. build_mtz cfg sv rb' = Inl (RuntimeError e') \<longrightarrow>
            convert_all cfg sv d (rb' # bs) ok files = convert_all cfg sv d bs False files) \<and>
         (\<forall>rb' e' bs ok' files'. build_mtz cfg sv rb' = Inl (RuntimeError e') \<and>
            convert_all cfg sv d bs False [] = (Inr ok', files') \<longrightarrow>
            run_conversion cfg sv (Some d) block path (rb' # bs) = (Exit 1, files'))"
proof -
  have w: "convert_block_to_mtz cfg sv rb (d @ ''/'' @ block_name rb @ ''.mtz'') = Inl (ProcessExit 3)"
    using assms(1,2) by (rule convert_write_failure)
  have "convert_all cfg sv d (bs1 @ rb # bs2) True [] = (Inl (ProcessExit 3), files1)"
    using w by (simp add: convert_all_append assms(3))
  then have A: "run_conversion cfg sv (Some d) block path (bs1 @ rb # bs2) = (Exit 3, files1)"
    by (simp add: run_conversion_def)
  have B: "run_conversion cfg sv None None path (rb # bs2) = (Exit 3, [])"
    if "write_to_file sv m path = Some (RuntimeError e)"
    using convert_write_failure[OF assms(1) that] by (simp add: run_conversion_def)
  have C: "convert_all cfg sv d (rb' # bs) ok files = convert_all cfg sv d bs False files"
    if "build_mtz cfg sv rb' = Inl (RuntimeError e')" for rb' e' bs ok files
    using convert_runtime_error[OF that] by simp
  have D: "run_conversion cfg sv (Some d) block path (rb' # bs) = (Exit 1, files')"
    if "build_mtz cfg sv rb' = Inl (RuntimeError e')"
      and "convert_all cfg sv d bs False [] = (Inr ok', files')" for rb' e' bs ok' files'
    using C[OF that(1)] that(2) convert_all_not_ok[OF that(2)]
    by (simp add: run_conversion_def)
  from A B C D show ?thesis by blast
qed

theorem write_failure_ends_the_run_witness:
  "\<not> isl (build_mtz (test_cfg default_entries) failing_services (merged_block ''a'' scenario_loop)) \<and>
   convert_all (test_cfg default_entries) failing_services ''out'' [merged_block ''c'' scenario_loop] True []
     = (Inr True, [(''out/c.mtz'', projr (build_mtz (test_cfg default_entries) failing_services (merged_block ''c'' scenario_loop)))]) \<and>
   run_conversion (test_cfg default_entries) failing_services (Some ''out'') None []
     ([merged_block ''c'' scenario_loop] @ merged_block ''a'' scenario_loop # [merged_block ''b'' scenario_loop])
     = (Exit 3, [(''out/c.mtz'', projr (build_mtz (test_cfg default_entries) failing_services (merged_block ''c'' scenario_loop)))]) \<and>
   run_conversion (test_cfg default_entries) failing_services None None ''out/a.mtz''
     [merged_block ''a'' scenario_loop, merged_block ''b'' scenario_loop] = (Exit 3, []) \<and>
   run_conversion (test_cfg default_entries) failing_services (Some ''out'') None []
     [merged_block ''k'' loop_without_k, merged_block ''b'' scenario_loop]
     = (Exit 1, [(''out/b.mtz'', projr (build_mtz (test_cfg default_entries) failing_services (merged_block ''b'' scenario_loop)))])"
proof -
  let ?cfg = "test_cfg default_entries"
  let ?a = "merged_block ''a'' scenario_loop"
  let ?b = "merged_block ''b'' scenario_loop"
  let ?c = "merged_block ''c'' scenario_loop"
  let ?k = "merged_block ''k'' loop_without_k"
  let ?fc = "(''out/c.mtz'', projr (build_mtz ?cfg failing_services ?c))"
  let ?fb = "(''out/b.mtz'', projr (build_mtz ?cfg failing_services ?b))"
  have "\<not> isl (build_mtz ?cfg failing_services ?a)" by code_simp
  then obtain m where m: "build_mtz ?cfg failing_services ?a = Inr m"
    by (cases "build_mtz ?cfg failing_services ?a") simp_all
  have w: "write_to_file failing_services m (''out'' @ ''/'' @ block_name ?a @ ''.mtz'') =
             Some (RuntimeError ''cannot open file'')"
    by (simp add: failing_services_def merged_block_def)
  have w': "write_to_file failing_services m ''out/a.mtz'' = Some (RuntimeError ''cannot open file'')"
    by (simp add: failing_services_def)
  have c: "convert_all ?cfg failing_services ''out'' [?c] True [] = (Inr True, [?fc])"
    by code_simp
  have k: "build_mtz ?cfg failing_services ?k =
             Inl (RuntimeError ''Miller index tag not found: _refln.index_k'')"
    by code_simp
  have b: "convert_all ?cfg failing_services ''out'' [?b] False [] = (Inr False, [?fb])"
    by code_simp
  note th = write_failure_ends_the_run[OF m w c, of None "[]" "[?b]"]
  from th have 1: "run_conversion ?cfg failing_services (Some ''out'') None [] ([?c] @ ?a # [?b])
      = (Exit 3, [?fc])" by blast
  from write_failure_ends_the_run[OF m w c, of None "''out/a.mtz''" "[?b]"] w'
  have 2: "run_conversion ?cfg failing_services None None ''out/a.mtz'' [?a, ?b] = (Exit 3, [])"
    by blast
  from th k b have 3: "run_conversion ?cfg failing_services (Some ''out'') None [] [?k, ?b]
      = (Exit 1, [?fb])" by blast
  from m c 1 2 3 show ?thesis by simp
qed

subsection \<open>C10: entries with the same label that are not consecutive\<close>

text \<open>
  C10, as stated, fails: in unmerged mode, when the entry between the two entries with
  the same label is a status entry, it is skipped, the second of the two entries then
  follows a column with its own label and is skipped as well, and one column with the
  label is left.
\<close>

theorem separated_by_status_entry_counterexample:
  "load_spec (Some separated_spec) = Inr separated_entries \<and>
   set (map (\<lambda>e. ''_refln.'' @ refln_tag e) separated_entries) \<subseteq> set (tags separated_loop) \<and>
   map col_label (drop 3 separated_entries) = [''F'', ''FreeR_flag'', ''F''] \<and>
   map_sum id (\<lambda>m. map c_label (columns m))
     (build_mtz (forced_cfg separated_entries) test_services (merged_block ''b'' separated_loop)) =
     Inr [''H'', ''K'', ''L'', ''M/ISYM'', ''BATCH'', ''F'']"
  by code_simp

text \<open>
  C10, amended: the resolver compares an entry's label only with the label of the
  column appended last. When two entries with the same label are separated by one entry
  with another label, the tags of all three are in the loop, and none of the three is a
  status entry met in unmerged mode, then after the three entries the column list ends
  with a column of the shared label (the first entry's, or an earlier one with that
  label), the column of the middle entry, and the column of the last entry; the three
  entries raise no error; and a table that resolves has at least two columns with the
  label.
\<close>

theorem separated_labels_give_two_columns:
  assumes "col_label e3 = col_label e1" and "col_label e2 \<noteq> col_label e1"
    and "pre @ refln_tag e1 \<in> set (tags lp)" and "pre @ refln_tag e2 \<in> set (tags lp)"
    and "pre @ refln_tag e3 \<in> set (tags lp)"
    and "unm \<longrightarrow> col_type e1 \<noteq> CHR ''s'' \<and> col_type e2 \<noteq> CHR ''s'' \<and> col_type e3 \<noteq> CHR ''s''"
  shows "(\<exists>cols' inds' us'.
            resolve pre lp unm (e1 # e2 # e3 # es) (cols, inds, us) =
            resolve pre lp unm es
              (cols' @ [new_column e2, new_column e3],
               inds' @ [find_tag lp (pre @ refln_tag e2), find_tag lp (pre @ refln_tag e3)], us') \<and>
            cols' \<noteq> [] \<and> c_label (last cols') = col_label e1 \<and>
            (cols' = cols \<or> cols' = cols @ [new_column e1])) \<and>
         (\<forall>es1 rcols rinds rus.
            resolve pre lp unm (es1 @ e1 # e2 # e3 # es) ([], [], False) = Inr (rcols, rinds, rus) \<longrightarrow>
            2 \<le> length (filter (\<lambda>c. c_label c = col_label e1) rcols))"
proof -
  note tr = resolve_triple[OF assms, unfolded tag_index_def]
  have two: "2 \<le> length (filter (\<lambda>c. c_label c = col_label e1) rcols)"
    if r: "resolve pre lp unm (es1 @ e1 # e2 # e3 # es) ([], [], False) = Inr (rcols, rinds, rus)"
    for es1 rcols rinds rus
  proof -
    let ?P = "\<lambda>c. c_label c = col_label e1"
    from r obtain st1 where "resolve pre lp unm (e1 # e2 # e3 # es) st1 = Inr (rcols, rinds, rus)"
      unfolding resolve_append by (rule and_then_InrE)
    moreover obtain c1 i1 u1 where "st1 = (c1, i1, u1)" by (cases st1)
    ultimately have r2: "resolve pre lp unm (e1 # e2 # e3 # es) (c1, i1, u1) = Inr (rcols, rinds, rus)"
      by simp
    from tr[of es c1 i1 u1] obtain cols' inds' us' where t:
      "resolve pre lp unm (e1 # e2 # e3 # es) (c1, i1, u1) =
       resolve pre lp unm es (cols' @ [new_column e2, new_column e3],
         inds' @ [find_tag lp (pre @ refln_tag e2), find_tag lp (pre @ refln_tag e3)], us')"
      "cols' \<noteq> []" "c_label (last cols') = col_label e1"
      by blast
    from r2 t(1) have "resolve pre lp unm es (cols' @ [new_column e2, new_column e3],
         inds' @ [find_tag lp (pre @ refln_tag e2), find_tag lp (pre @ refln_tag e3)], us')
         = Inr (rcols, rinds, rus)" by simp
    from resolve_grows[OF this] obtain sel where
      rc: "rcols = (cols' @ [new_column e2, new_column e3]) @ map new_column sel" by blast
    from t(2,3) have "last cols' \<in> set (filter ?P cols')" by simp
    then have "1 \<le> length (filter ?P cols')"
      by (cases "filter ?P cols'") simp_all
    then show ?thesis
      using assms(1) by (simp add: rc)
  qed
  from tr two show ?thesis by blast
qed

theorem separated_labels_give_two_columns_witness:
  "col_label (separated_entries ! 5) = col_label (separated_entries ! 3) \<and>
   col_label (separated_entries ! 4) \<noteq> col_label (separated_entries ! 3) \<and>
   ''_refln.'' @ refln_tag (separated_entries ! 3) \<in> set (tags separated_loop) \<and>
   ''_refln.'' @ refln_tag (separated_entries ! 4) \<in> set (tags separated_loop) \<and>
   ''_refln.'' @ refln_tag (separated_entries ! 5) \<in> set (tags separated_loop) \<and>
   separated_entries = take 3 separated_entries @
     separated_entries ! 3 # separated_entries ! 4 # separated_entries ! 5 # [] \<and>
   map c_label (fst (projr (resolve ''_refln.'' separated_loop False separated_entries ([], [], False)))) =
     [''H'', ''K'', ''L'', ''F'', ''FreeR_flag'', ''F''] \<and>
   2 \<le> length (filter (\<lambda>c. c_label c = col_label (separated_entries ! 3))
          (fst (projr (resolve ''_refln.'' separated_loop False separated_entries ([], [], False)))))"
proof -
  let ?e1 = "separated_entries ! 3"
  let ?e2 = "separated_entries ! 4"
  let ?e3 = "separated_entries ! 5"
  let ?res = "resolve ''_refln.'' separated_loop False separated_entries ([], [], False)"
  have h: "col_label ?e3 = col_label ?e1" "col_label ?e2 \<noteq> col_label ?e1"
    "''_refln.'' @ refln_tag ?e1 \<in> set (tags separated_loop)"
    "''_refln.'' @ refln_tag ?e2 \<in> set (tags separated_loop)"
    "''_refln.'' @ refln_tag ?e3 \<in> set (tags separated_loop)"
    by (simp_all add: separated_entries_def separated_loop_def)
  have h6: "False \<longrightarrow> col_type ?e1 \<noteq> CHR ''s'' \<and> col_type ?e2 \<noteq> CHR ''s'' \<and> col_type ?e3 \<noteq> CHR ''s''"
    by simp
  have sp: "separated_entries = take 3 separated_entries @ ?e1 # ?e2 # ?e3 # []"
    by (simp add: separated_entries_def)
  have ev: "\<not> isl ?res"
    "map c_label (fst (projr ?res)) = [''H'', ''K'', ''L'', ''F'', ''FreeR_flag'', ''F'']"
    by code_simp+
  then obtain rcols rinds rus where r: "?res = Inr (rcols, rinds, rus)"
    by (cases ?res) auto
  from r have r': "resolve ''_refln.'' separated_loop False
      (take 3 separated_entries @ ?e1 # ?e2 # ?e3 # []) ([], [], False) = Inr (rcols, rinds, rus)"
    using sp by simp
  from separated_labels_give_two_columns[OF h h6, of "[]"] r'
  have "2 \<le> length (filter (\<lambda>c. c_label c = col_label ?e1) rcols)"
    by blast
  with r have "2 \<le> length (filter (\<lambda>c. c_label c = col_label ?e1) (fst (projr ?res)))"
    by simp
  with h sp ev(2) show ?thesis by simp
qed

end
